theory Spec2Isabelle
  imports Main
begin

section \<open>Strings as the loader uses them\<close>

text \<open>
  JavaScript strings are modelled as \<open>string\<close> (character lists) and positions as
  \<open>int\<close>, so that the \<open>-1\<close> of \<open>indexOf\<close> and \<open>lastIndexOf\<close> and the clamping of
  \<open>substring\<close> are those of the language; a string tested for truthiness is tested
  for being non-empty.

  The objects used as dictionaries are plain objects (\<open>{}\<close>), modelled as maps over
  their own properties. A plain object also answers to the names of the members it
  inherits from \<open>Object.prototype\<close> (functions, and under \<open>__proto__\<close> the prototype
  itself): all of them truthy values that have no property \<open>exports\<close>, and under
  \<open>__proto__\<close> an accessor, so that an assignment of a number or a string to that name
  creates no property. This is modelled wherever the name looked up is one that client
  code chooses: the bare specifier looked up in \<open>builtins\<close>, the target looked up in the
  cache of a directory, the key looked up by a key sequence. The other tables
  (\<open>definitions\<close>, \<open>mains\<close>, \<open>remapped\<close>, \<open>installed\<close>, the instance cache, the caches
  by directory) are read at module paths and at the directories of module paths, which
  are taken not to be among these names.
\<close>

definition objectPrototype :: "string list" where
  "objectPrototype =
     [''constructor'', ''__defineGetter__'', ''__defineSetter__'', ''hasOwnProperty'',
      ''__lookupGetter__'', ''__lookupSetter__'', ''isPrototypeOf'', ''propertyIsEnumerable'',
      ''toString'', ''valueOf'', ''__proto__'', ''toLocaleString'']"

definition inherited :: "string \<Rightarrow> bool" where
  "inherited name = (name \<in> set objectPrototype)"

definition charAt :: "string \<Rightarrow> int \<Rightarrow> string" where
  "charAt s i = (if 0 \<le> i \<and> i < int (length s) then [s ! nat i] else [])"

definition clampIndex :: "string \<Rightarrow> int \<Rightarrow> nat" where
  "clampIndex s i = nat (max 0 (min i (int (length s))))"

definition substring :: "string \<Rightarrow> int \<Rightarrow> int \<Rightarrow> string" where
  "substring s a b =
     (let lo = min (clampIndex s a) (clampIndex s b);
          hi = max (clampIndex s a) (clampIndex s b)
      in take (hi - lo) (drop lo s))"

definition substringFrom :: "string \<Rightarrow> int \<Rightarrow> string" where
  "substringFrom s a = drop (clampIndex s a) s"

fun indexFrom :: "char \<Rightarrow> string \<Rightarrow> int \<Rightarrow> int" where
  "indexFrom c [] pos = -1"
| "indexFrom c (x # xs) pos = (if x = c then pos else indexFrom c xs (pos + 1))"

definition indexOfFrom :: "char \<Rightarrow> string \<Rightarrow> int \<Rightarrow> int" where
  "indexOfFrom c s start = indexFrom c (drop (clampIndex s start) s) (int (clampIndex s start))"

definition indexOf :: "char \<Rightarrow> string \<Rightarrow> int" where
  "indexOf c s = indexOfFrom c s 0"

fun lastIndexFrom :: "char \<Rightarrow> string \<Rightarrow> int \<Rightarrow> int \<Rightarrow> int" where
  "lastIndexFrom c [] pos found = found"
| "lastIndexFrom c (x # xs) pos found =
     lastIndexFrom c xs (pos + 1) (if x = c then pos else found)"

definition lastIndexOf :: "char \<Rightarrow> string \<Rightarrow> int" where
  "lastIndexOf c s = lastIndexFrom c s 0 (-1)"

text \<open>\<open>s.split('/')\<close> and \<open>parts.join('/')\<close>.\<close>

fun split_str :: "string \<Rightarrow> string list" where
  "split_str [] = [[]]"
| "split_str (x # xs) =
     (if x = CHR ''/'' then [] # split_str xs
      else (case split_str xs of [] \<Rightarrow> [[x]] | p # ps \<Rightarrow> (x # p) # ps))"

fun join_arr :: "string list \<Rightarrow> string" where
  "join_arr [] = []"
| "join_arr [p] = p"
| "join_arr (p # q # ps) = p @ ''/'' @ join_arr (q # ps)"

section \<open>The module loader: data\<close>

datatype val = Undefined | Num int | Str string | Obj nat

text \<open>
  A definition is a factory function or a plain value. A factory is client code; it is
  modelled by the sequence of calls it makes on what the loader injects into it:
  \<open>require\<close>, \<open>require.resolve\<close>, the \<open>exports\<close> object, \<open>module\<close>, and the runtime's
  \<open>pending\<close> job counter, and by the error it may throw (\<open>Raise\<close>, with the \<open>code\<close>
  property of the error, if any, and its message).
\<close>

datatype action =
    Require string
  | RequireInto string string
  | ResolveInto string string
  | SetExport string val
  | SetModuleExports val
  | Pending
  | Done
  | Raise "string option" string

datatype defn = Factory "action list" | Literal val

datatype error = Error "string option" string | RangeError | TypeError

record module =
  filename :: string
  loaded :: bool
  exports :: val

record loader =
  definitions :: "string \<rightharpoonup> defn"
  searchPaths :: "string list"
  ready_flag :: bool
  runQueue :: "(string \<times> bool option) list"
  instanceCache :: "string \<rightharpoonup> nat"
  installed :: "string \<rightharpoonup> string"
  builtins :: "string \<rightharpoonup> string"
  mains :: "string \<rightharpoonup> string"
  remapped :: "string \<rightharpoonup> string"
  cacheByDirname :: "string \<rightharpoonup> (string \<rightharpoonup> nat)"
  loadedGlobalsByRealPath :: "string \<rightharpoonup> nat"
  pendingCount :: int
  modules :: "module list"
  objects :: "(string \<rightharpoonup> val) list"

section \<open>Path normalisation\<close>

definition moduleNotFoundError :: "string \<Rightarrow> string option \<Rightarrow> error" where
  "moduleNotFoundError target frm =
     Error (Some ''MODULE_NOT_FOUND'')
       (''Cannot find module \"'' @ target @ ''\"'' @
        (case frm of
           None \<Rightarrow> []
         | Some f \<Rightarrow> if f = [] then [] else '' from \"'' @ f @ ''\"''))"

text \<open>
  One iteration of the loop of \<open>normalizePathParts\<close>, on the array and \<open>len\<close>. The loop
  writes \<open>parts[len]\<close> with \<open>len \<le> i\<close>, inside the array; a write at a negative \<open>len\<close>
  sets a property that is no element of the array.
\<close>

definition normalizeStep :: "string list \<times> int \<Rightarrow> nat \<Rightarrow> string list \<times> int" where
  "normalizeStep s i =
     (let parts = fst s; len = snd s; part = parts ! i
      in if part = ''.'' then (parts, len)
         else if part = ''..'' then (parts, len - 1)
         else ((if 0 \<le> len then parts[nat len := part] else parts), len + 1))"

definition normalizePathParts :: "string list \<Rightarrow> error + string" where
  "normalizePathParts parts0 =
     (let numParts = length parts0;
          s = fold (\<lambda>i s. normalizeStep s i) [0..<numParts] (parts0, 0);
          parts = fst s; len = snd s
      in if len = 1 then Inr ''/''
         else
           (let len' = (if len > 2 \<and> length (parts ! nat (len - 1)) = 0 then len - 1 else len)
            in if len' < 0 then Inl RangeError else Inr (join_arr (take (nat len') parts))))"

definition join :: "string \<Rightarrow> string \<Rightarrow> error + string" where
  "join frm target =
     (let targetParts = split_str target;
          fromParts = (if frm = ''/'' then [[]] else split_str frm)
      in normalizePathParts (fromParts @ targetParts))"

definition withoutExtension :: "string \<Rightarrow> string option" where
  "withoutExtension path =
     (let lastDotPos = lastIndexOf CHR ''.'' path;
          lastSlashPos = lastIndexOf CHR ''/'' path
      in if lastDotPos = -1 \<or> (lastSlashPos \<noteq> -1 \<and> lastSlashPos > lastDotPos) then None
         else Some (substring path 0 lastDotPos))"

definition splitPackageIdAndSubpath :: "string \<Rightarrow> string \<times> string" where
  "splitPackageIdAndSubpath path0 =
     (let path = substringFrom path0 1;
          slashPos0 = indexOf CHR ''/'' path;
          slashPos = (if charAt path 1 = ''@'' then indexOfFrom CHR ''/'' path (slashPos0 + 1)
                      else slashPos0);
          packageIdEnd = (if slashPos = -1 then int (length path) else slashPos)
      in (substring path 0 packageIdEnd, substringFrom path packageIdEnd))"

section \<open>Resolution\<close>

text \<open>
  What \<open>resolveInstalledModule\<close> returns when it returns something: a path, or, for a
  specifier that names no builtin but a member of \<open>Object.prototype\<close>, that member, which
  \<open>builtins[target]\<close> yields then.
\<close>

datatype candidate = Path string | Member string

definition resolveInstalledModule ::
  "loader \<Rightarrow> string \<Rightarrow> string option \<Rightarrow> error + candidate option" where
  "resolveInstalledModule st target0 frm =
     (let target = (if charAt target0 (int (length target0) - 1) = ''/'' then butlast target0
                    else target0);
          builtinPath = (case builtins st target of
                           Some path \<Rightarrow> Some (Path path)
                         | None \<Rightarrow> if inherited target then Some (Member target) else None)
      in if builtinPath \<noteq> None \<and> builtinPath \<noteq> Some (Path [])
         then Inr builtinPath
         else
           (case frm of
              None \<Rightarrow> Inl TypeError
            | Some f \<Rightarrow>
                (let fromPackageId = fst (splitPackageIdAndSubpath f);
                     targetSlashPos0 = indexOf CHR ''/'' target;
                     targetSlashPos =
                       (if charAt target 0 = ''@''
                        then indexOfFrom CHR ''/'' target (targetSlashPos0 + 1)
                        else targetSlashPos0);
                     targetPackageName =
                       (if targetSlashPos0 < 0 then target else substring target 0 targetSlashPos);
                     targetSubpath =
                       (if targetSlashPos0 < 0 then [] else substringFrom target targetSlashPos)
                 in (case installed st (fromPackageId @ ''/'' @ targetPackageName) of
                       None \<Rightarrow> Inr None
                     | Some targetPackageVersion \<Rightarrow>
                         if targetPackageVersion = [] then Inr None
                         else Inr (Some (Path (''/'' @ targetPackageName @ ''$''
                                                 @ targetPackageVersion @ targetSubpath)))))))"

text \<open>
  \<open>definitions[path]\<close> as \<open>resolve\<close> tests it, against \<open>undefined\<close>: a path defined with
  the value \<open>undefined\<close> has no definition.
\<close>

definition definitionOf :: "loader \<Rightarrow> string \<Rightarrow> defn option" where
  "definitionOf st path =
     (case definitions st path of
        None \<Rightarrow> None
      | Some factoryOrObject \<Rightarrow>
          if factoryOrObject = Literal Undefined then None else Some factoryOrObject)"

text \<open>
  The second half of \<open>resolve\<close>: from the candidate path (\<open>None\<close> is \<open>undefined\<close>) to
  the definition, through the main of a directory, a remap, and the path without its
  extension.
\<close>

definition resolve_lookup :: "loader \<Rightarrow> string option \<Rightarrow> error + (string \<times> defn) option" where
  "resolve_lookup st candidate =
     (case candidate of
        None \<Rightarrow> Inr None
      | Some resolvedPath0 \<Rightarrow>
          if resolvedPath0 = [] then Inr None
          else
            (case (case mains st resolvedPath0 of
                     None \<Rightarrow> Inr resolvedPath0
                   | Some relativePath \<Rightarrow>
                       join resolvedPath0 (if relativePath = [] then ''index'' else relativePath))
             of
               Inl e \<Rightarrow> Inl e
             | Inr resolvedPath1 \<Rightarrow>
                 (let resolvedPath =
                        (case remapped st resolvedPath1 of
                           None \<Rightarrow> resolvedPath1
                         | Some remappedPath \<Rightarrow>
                             if remappedPath = [] then resolvedPath1 else remappedPath)
                  in (case definitionOf st resolvedPath of
                        Some factoryOrObject \<Rightarrow> Inr (Some (resolvedPath, factoryOrObject))
                      | None \<Rightarrow>
                          (case withoutExtension resolvedPath of
                             None \<Rightarrow> Inr None
                           | Some resolvedPathWithoutExtension \<Rightarrow>
                               (case definitionOf st resolvedPathWithoutExtension of
                                  None \<Rightarrow> Inr None
                                | Some factoryOrObject \<Rightarrow>
                                    Inr (Some (resolvedPathWithoutExtension, factoryOrObject))))))))"

text \<open>
  The loop of \<open>resolve\<close> over the search paths; \<open>r\<close> is the recursive call. The outer
  \<open>option\<close> is \<open>None\<close> when the recursion does not end. When \<open>resolveInstalledModule\<close>
  has returned a member of \<open>Object.prototype\<close>, the tables are read under the text of
  that value, where they hold nothing, and \<open>withoutExtension\<close> calls \<open>lastIndexOf\<close> on
  it, which no such member has: a \<open>TypeError\<close>.
\<close>

fun searchLoop ::
  "(string \<Rightarrow> (error + (string \<times> defn) option) option) \<Rightarrow> string list \<Rightarrow> string \<Rightarrow>
   (error + (string \<times> defn) option) option" where
  "searchLoop r [] target = Some (Inr None)"
| "searchLoop r (prefix # rest) target =
     (case r (prefix @ target) of
        None \<Rightarrow> None
      | Some (Inl e) \<Rightarrow> Some (Inl e)
      | Some (Inr (Some resolved)) \<Rightarrow> Some (Inr (Some resolved))
      | Some (Inr None) \<Rightarrow> searchLoop r rest target)"

fun resolve ::
  "nat \<Rightarrow> loader \<Rightarrow> string \<Rightarrow> string option \<Rightarrow> (error + (string \<times> defn) option) option" where
  "resolve 0 st target frm = None"
| "resolve (Suc n) st target frm =
     (if charAt target 0 = ''.'' then
        (case frm of
           None \<Rightarrow> Some (Inl TypeError)
         | Some f \<Rightarrow>
             (case join f target of
                Inl e \<Rightarrow> Some (Inl e)
              | Inr resolvedPath \<Rightarrow> Some (resolve_lookup st (Some resolvedPath))))
      else if charAt target 0 = ''/'' then
        (case normalizePathParts (split_str target) of
           Inl e \<Rightarrow> Some (Inl e)
         | Inr resolvedPath \<Rightarrow> Some (resolve_lookup st (Some resolvedPath)))
      else
        (case searchLoop (\<lambda>candidate. resolve n st candidate frm) (searchPaths st) target of
           None \<Rightarrow> None
         | Some (Inl e) \<Rightarrow> Some (Inl e)
         | Some (Inr (Some resolved)) \<Rightarrow> Some (Inr (Some resolved))
         | Some (Inr None) \<Rightarrow>
             (case resolveInstalledModule st target frm of
                Inl e \<Rightarrow> Some (Inl e)
              | Inr None \<Rightarrow> Some (resolve_lookup st None)
              | Inr (Some (Path resolvedPath)) \<Rightarrow> Some (resolve_lookup st (Some resolvedPath))
              | Inr (Some (Member name)) \<Rightarrow> Some (Inl TypeError))))"

section \<open>Loading modules\<close>

text \<open>
  Module instances and the objects created for \<open>exports\<close> live in two stores of the
  state, addressed by position: the instance cache, the per-directory caches and the
  values handed to factories hold addresses, so that two references to one instance are
  one address. Every function below returns the outcome (a thrown error on the left)
  with the state as the call left it; \<open>None\<close> means that the fuel ran out.

  The \<open>require\<close> injected into a factory (\<open>instanceRequire\<close>) reads
  \<open>localCache[target]\<close> first. For a target not required before from that directory
  that names a member of \<open>Object.prototype\<close>, the value read is that member: it is taken
  for the module, and its \<open>exports\<close>, \<open>undefined\<close>, is returned without anything being
  resolved.
\<close>

type_synonym 'a result = "((error + 'a) \<times> loader) option"

definition newModule :: "string \<Rightarrow> module" where
  "newModule path = \<lparr>filename = path, loaded = False, exports = Undefined\<rparr>"

definition setExports :: "loader \<Rightarrow> nat \<Rightarrow> val \<Rightarrow> loader" where
  "setExports st m v = st\<lparr>modules := (modules st)[m := (modules st ! m)\<lparr>exports := v\<rparr>]\<rparr>"

definition setLoaded :: "loader \<Rightarrow> nat \<Rightarrow> loader" where
  "setLoaded st m = st\<lparr>modules := (modules st)[m := (modules st ! m)\<lparr>loaded := True\<rparr>]\<rparr>"

definition putProperty :: "loader \<Rightarrow> nat \<Rightarrow> string \<Rightarrow> val \<Rightarrow> loader" where
  "putProperty st a k v = st\<lparr>objects := (objects st)[a := (objects st ! a)(k \<mapsto> v)]\<rparr>"

definition localCache :: "loader \<Rightarrow> string \<Rightarrow> (string \<rightharpoonup> nat)" where
  "localCache st dirname = (case cacheByDirname st dirname of None \<Rightarrow> Map.empty | Some c \<Rightarrow> c)"

definition dirnameOf :: "string \<Rightarrow> string" where
  "dirnameOf path = substring path 0 (lastIndexOf CHR ''/'' path)"

text \<open>\<open>require.resolve\<close> of the \<open>require\<close> injected into a factory.\<close>

definition instanceResolve :: "nat \<Rightarrow> loader \<Rightarrow> string \<Rightarrow> string \<Rightarrow> (error + string) option" where
  "instanceResolve n st dirname target =
     (if target = [] then Some (Inl (moduleNotFoundError [] None))
      else
        (case resolve n st target (Some dirname) of
           None \<Rightarrow> None
         | Some (Inl e) \<Rightarrow> Some (Inl e)
         | Some (Inr None) \<Rightarrow> Some (Inl (moduleNotFoundError target (Some dirname)))
         | Some (Inr (Some resolved)) \<Rightarrow> Some (Inr (fst resolved))))"

function (sequential) requireModule :: "nat \<Rightarrow> loader \<Rightarrow> string \<Rightarrow> string option \<Rightarrow> nat result"
  and load :: "nat \<Rightarrow> loader \<Rightarrow> nat \<Rightarrow> defn \<Rightarrow> unit result"
  and runFactory :: "nat \<Rightarrow> loader \<Rightarrow> nat \<Rightarrow> nat \<Rightarrow> string \<Rightarrow> action list \<Rightarrow> unit result"
  and instanceRequire :: "nat \<Rightarrow> loader \<Rightarrow> string \<Rightarrow> string \<Rightarrow> val result"
  and run :: "nat \<Rightarrow> loader \<Rightarrow> string \<Rightarrow> bool option \<Rightarrow> unit result"
  and runAll :: "nat \<Rightarrow> loader \<Rightarrow> (string \<times> bool option) list \<Rightarrow> unit result"
  and readyLoop :: "nat \<Rightarrow> loader \<Rightarrow> unit result"
  and ready :: "nat \<Rightarrow> loader \<Rightarrow> unit result"
  and onPendingComplete :: "nat \<Rightarrow> loader \<Rightarrow> unit result"
where
  "requireModule 0 st target frm = None"
| "requireModule (Suc n) st target frm =
     (if target = [] then Some (Inl (moduleNotFoundError [] None), st)
      else
        (case resolve (Suc n) st target frm of
           None \<Rightarrow> None
         | Some (Inl e) \<Rightarrow> Some (Inl e, st)
         | Some (Inr None) \<Rightarrow> Some (Inl (moduleNotFoundError target frm), st)
         | Some (Inr (Some resolved)) \<Rightarrow>
             (let resolvedPath = fst resolved in
              case instanceCache st resolvedPath of
                Some m \<Rightarrow> Some (Inr m, st)
              | None \<Rightarrow>
                  (case loadedGlobalsByRealPath st resolvedPath of
                     Some g \<Rightarrow> Some (Inr g, st)
                   | None \<Rightarrow>
                       (let factoryOrObject = snd resolved;
                            m = length (modules st);
                            st1 = st\<lparr>modules := modules st @ [newModule resolvedPath],
                                     instanceCache := (instanceCache st)(resolvedPath \<mapsto> m)\<rparr>
                        in case load n st1 m factoryOrObject of
                             None \<Rightarrow> None
                           | Some (Inl e, st2) \<Rightarrow> Some (Inl e, st2)
                           | Some (Inr u, st2) \<Rightarrow> Some (Inr m, st2))))))"
| "load 0 st m factoryOrObject = None"
| "load (Suc n) st m factoryOrObject =
     (case factoryOrObject of
        Literal v \<Rightarrow> Some (Inr (), setLoaded (setExports st m v) m)
      | Factory body \<Rightarrow>
          (let dirname = dirnameOf (filename (modules st ! m));
               st1 = (case cacheByDirname st dirname of
                        Some c \<Rightarrow> st
                      | None \<Rightarrow> st\<lparr>cacheByDirname := (cacheByDirname st)(dirname \<mapsto> Map.empty)\<rparr>);
               a = length (objects st1);
               st2 = setExports (st1\<lparr>objects := objects st1 @ [Map.empty]\<rparr>) m (Obj a)
           in case runFactory n st2 m a dirname body of
                None \<Rightarrow> None
              | Some (Inl e, st3) \<Rightarrow> Some (Inl e, st3)
              | Some (Inr u, st3) \<Rightarrow> Some (Inr (), setLoaded st3 m)))"
| "runFactory n st m a dirname [] = Some (Inr (), st)"
| "runFactory 0 st m a dirname (act # body) = None"
| "runFactory (Suc n) st m a dirname (act # body) =
     (case (case act of
              Require target \<Rightarrow>
                (case instanceRequire n st dirname target of
                   None \<Rightarrow> None
                 | Some (Inl e, st') \<Rightarrow> Some (Inl e, st')
                 | Some (Inr v, st') \<Rightarrow> Some (Inr (), st'))
            | RequireInto k target \<Rightarrow>
                (case instanceRequire n st dirname target of
                   None \<Rightarrow> None
                 | Some (Inl e, st') \<Rightarrow> Some (Inl e, st')
                 | Some (Inr v, st') \<Rightarrow> Some (Inr (), putProperty st' a k v))
            | ResolveInto k target \<Rightarrow>
                (case instanceResolve (Suc n) st dirname target of
                   None \<Rightarrow> None
                 | Some (Inl e) \<Rightarrow> Some (Inl e, st)
                 | Some (Inr path) \<Rightarrow> Some (Inr (), putProperty st a k (Str path)))
            | SetExport k v \<Rightarrow> Some (Inr (), putProperty st a k v)
            | SetModuleExports v \<Rightarrow> Some (Inr (), setExports st m v)
            | Pending \<Rightarrow>
                Some (Inr (), st\<lparr>ready_flag := False, pendingCount := pendingCount st + 1\<rparr>)
            | Done \<Rightarrow> onPendingComplete n st
            | Raise code msg \<Rightarrow> Some (Inl (Error code msg), st))
      of
        None \<Rightarrow> None
      | Some (Inl e, st') \<Rightarrow> Some (Inl e, st')
      | Some (Inr u, st') \<Rightarrow> runFactory (Suc n) st' m a dirname body)"
| "instanceRequire 0 st dirname target = None"
| "instanceRequire (Suc n) st dirname target =
     (case localCache st dirname target of
        Some m \<Rightarrow> Some (Inr (exports (modules st ! m)), st)
      | None \<Rightarrow>
          if inherited target then Some (Inr Undefined, st)
          else
            (case requireModule n st target (Some dirname) of
               None \<Rightarrow> None
             | Some (Inl e, st') \<Rightarrow> Some (Inl e, st')
             | Some (Inr m, st') \<Rightarrow>
                 Some (Inr (exports (modules st' ! m)),
                       st'\<lparr>cacheByDirname :=
                            (cacheByDirname st')(dirname \<mapsto> (localCache st' dirname)(target \<mapsto> m))\<rparr>)))"
| "run 0 st path options = None"
| "run (Suc n) st path options =
     (let wait = (options \<noteq> Some False) in
      if wait \<and> \<not> ready_flag st then Some (Inr (), st\<lparr>runQueue := runQueue st @ [(path, options)]\<rparr>)
      else
        (case requireModule n st path (Some ''/'') of
           None \<Rightarrow> None
         | Some (Inl e, st') \<Rightarrow> Some (Inl e, st')
         | Some (Inr m, st') \<Rightarrow> Some (Inr (), st')))"
| "runAll n st [] = Some (Inr (), st)"
| "runAll 0 st (args # queue) = None"
| "runAll (Suc n) st (args # queue) =
     (case run n st (fst args) (snd args) of
        None \<Rightarrow> None
      | Some (Inl e, st') \<Rightarrow> Some (Inl e, st')
      | Some (Inr u, st') \<Rightarrow> runAll (Suc n) st' queue)"
| "readyLoop 0 st = None"
| "readyLoop (Suc n) st =
     (if runQueue st = [] then Some (Inr (), st)
      else
        (let queue = runQueue st in
         case runAll n (st\<lparr>runQueue := []\<rparr>) queue of
           None \<Rightarrow> None
         | Some (Inl e, st') \<Rightarrow> Some (Inl e, st')
         | Some (Inr u, st') \<Rightarrow> if \<not> ready_flag st' then Some (Inr (), st') else readyLoop n st'))"
| "ready 0 st = None"
| "ready (Suc n) st = readyLoop n (st\<lparr>ready_flag := True\<rparr>)"
| "onPendingComplete 0 st = None"
| "onPendingComplete (Suc n) st =
     (let st1 = st\<lparr>pendingCount := pendingCount st - 1\<rparr> in
      if pendingCount st1 = 0 then ready n st1 else Some (Inr (), st1))"
  by pat_completeness auto
termination
  by (relation "measures
        [case_sum (case_sum (case_sum fst fst) (case_sum fst fst))
           (case_sum (case_sum fst fst) (case_sum fst (case_sum fst fst))),
         case_sum (case_sum (case_sum (\<lambda>x. 0) (\<lambda>x. 0))
                     (case_sum (\<lambda>x. length (snd (snd (snd (snd (snd x)))))) (\<lambda>x. 0)))
           (case_sum (case_sum (\<lambda>x. 0) (\<lambda>x. length (snd (snd x))))
              (case_sum (\<lambda>x. 0) (case_sum (\<lambda>x. 0) (\<lambda>x. 0))))]")
    simp_all

text \<open>\<open>require\<close>: the exports of the instance.\<close>

definition require :: "nat \<Rightarrow> loader \<Rightarrow> string \<Rightarrow> string option \<Rightarrow> val result" where
  "require n st target frm =
     (case requireModule n st target frm of
        None \<Rightarrow> None
      | Some (Inl e, st') \<Rightarrow> Some (Inl e, st')
      | Some (Inr m, st') \<Rightarrow> Some (Inr (exports (modules st' ! m)), st'))"

text \<open>The registration calls of the runtime, and the state of a page before any of them.\<close>

definition init :: loader where
  "init = \<lparr>definitions = Map.empty, searchPaths = [], ready_flag = False, runQueue = [],
            instanceCache = Map.empty, installed = Map.empty, builtins = Map.empty,
            mains = Map.empty, remapped = Map.empty, cacheByDirname = Map.empty,
            loadedGlobalsByRealPath = Map.empty, pendingCount = 0, modules = [], objects = []\<rparr>"

definition def :: "string \<Rightarrow> defn \<Rightarrow> loader \<Rightarrow> loader" where
  "def path factoryOrObject st = st\<lparr>definitions := (definitions st)(path \<mapsto> factoryOrObject)\<rparr>"

definition registerMain :: "string \<Rightarrow> string \<Rightarrow> loader \<Rightarrow> loader" where
  "registerMain path relativePath st = st\<lparr>mains := (mains st)(path \<mapsto> relativePath)\<rparr>"

definition remap :: "string \<Rightarrow> string \<Rightarrow> loader \<Rightarrow> loader" where
  "remap fromPath toPath st = st\<lparr>remapped := (remapped st)(fromPath \<mapsto> toPath)\<rparr>"




section \<open>Normalisation as a walk over the segments\<close>

text \<open>
  The loop of \<open>normalizePathParts\<close> seen as a walk over the segments with the list of
  the segments kept so far: a \<open>.\<close> is passed over, a \<open>..\<close> removes the segment kept
  last, and a \<open>..\<close> met when nothing is kept is counted (\<open>debt\<close>), a counted \<open>..\<close>
  cancelling the next segment that would be kept. \<open>finishSegments\<close> assembles the
  path: a count left over is the invalid array length, one segment alone is the root,
  and one trailing empty segment is dropped when more than two segments remain. The
  properties of normalisation are proved through this walk, which is shown to compute
  what the loop computes.
\<close>

fun keepSegments :: "string list \<Rightarrow> nat \<Rightarrow> string list \<Rightarrow> string list \<times> nat" where
  "keepSegments kept debt [] = (kept, debt)"
| "keepSegments kept debt (p # ps) =
     (if p = ''.'' then keepSegments kept debt ps
      else if p = ''..'' then
        (if kept = [] then keepSegments [] (Suc debt) ps else keepSegments (butlast kept) debt ps)
      else if debt = 0 then keepSegments (kept @ [p]) 0 ps
      else keepSegments kept (debt - 1) ps)"

definition finishSegments :: "string list \<times> nat \<Rightarrow> error + string" where
  "finishSegments r =
     (let kept = fst r; debt = snd r
      in if debt > 0 then Inl RangeError
         else if length kept = 1 then Inr ''/''
         else if length kept > 2 \<and> last kept = [] then Inr (join_arr (butlast kept))
         else Inr (join_arr kept))"

definition ordinary :: "string \<Rightarrow> bool" where
  "ordinary p = (p \<noteq> ''.'' \<and> p \<noteq> ''..'')"

definition keptOf :: "string list \<times> int \<Rightarrow> string list \<times> nat" where
  "keptOf s = (if 0 \<le> snd s then (take (nat (snd s)) (fst s), 0) else ([], nat (- snd s)))"

section \<open>Pages used as examples\<close>





text \<open>
  Registrations of the bundle itself: the main of the components directory with its
  remap (lines 596-597), and the loader directory, whose index is remapped twice
  (lines 4228-4231).
\<close>

definition markoPage :: loader where
  "markoPage =
     def ''/marko$4.18.10/dist/loader/index-browser-dynamic'' (Literal (Num 1))
       (remap ''/marko$4.18.10/dist/loader/index-browser''
              ''/marko$4.18.10/dist/loader/index-browser-dynamic''
         (remap ''/marko$4.18.10/dist/loader/index'' ''/marko$4.18.10/dist/loader/index-browser''
           (registerMain ''/marko$4.18.10/dist/loader'' []
             (def ''/marko$4.18.10/dist/runtime/components/index-browser'' (Literal (Num 2))
               (remap ''/marko$4.18.10/dist/runtime/components/index''
                      ''/marko$4.18.10/dist/runtime/components/index-browser''
                 (registerMain ''/marko$4.18.10/dist/runtime/components'' [] init))))))"

text \<open>A module under \<open>/a\<close>, required with trailing slashes.\<close>

definition slashPage :: loader where
  "slashPage = def ''/a/b'' (Literal (Num 1)) init"





text \<open>
  Two modules that require each other. On \<open>cyclePage\<close> both fill the \<open>exports\<close> object
  they are given; on \<open>reassignPage\<close> the first replaces \<open>module.exports\<close> after it has
  required the second.
\<close>

definition cyclePage :: loader where
  "cyclePage =
     def ''/p/A'' (Factory [SetExport ''x'' (Num 1), RequireInto ''b'' ''./B'',
                           SetExport ''y'' (Num 2)])
       (def ''/p/B'' (Factory [RequireInto ''a'' ''./A'', SetExport ''z'' (Num 3)]) init)"

definition reassignPage :: loader where
  "reassignPage =
     def ''/p/A'' (Factory [RequireInto ''b'' ''./B'', SetModuleExports (Str ''final'')])
       (def ''/p/B'' (Factory [RequireInto ''a'' ''./A'']) init)"

text \<open>
  \<open>cyclePage\<close> at the moment the factory of \<open>/p/A\<close> starts: its instance is in the
  cache, not loaded, with the object at address 0 as its exports.
\<close>

definition loadingPage :: loader where
  "loadingPage =
     cyclePage\<lparr>instanceCache := [''/p/A'' \<mapsto> 0],
               modules := [\<lparr>filename = ''/p/A'', loaded = False, exports = Obj 0\<rparr>],
               objects := [Map.empty]\<rparr>"


text \<open>
  Three entry points, the second of which registers a pending job; on \<open>queuedPage\<close> they
  have been queued by \<open>run\<close> while the page was not ready.
\<close>

definition queuePage :: loader where
  "queuePage =
     def ''/m1'' (Factory [SetExport ''x'' (Num 1)])
       (def ''/m2'' (Factory [Pending])
         (def ''/m3'' (Factory [SetExport ''z'' (Num 3)]) init))"

definition queuedPage :: loader where
  "queuedPage = queuePage\<lparr>runQueue := [(''/m1'', None), (''/m2'', None), (''/m3'', None)]\<rparr>"

text \<open>
  Two queued entry points, the first of which registers a pending job and then throws.
\<close>

definition throwPage :: loader where
  "throwPage =
     (def ''/t1'' (Factory [Pending, Raise None ''boom''])
       (def ''/t2'' (Factory [SetExport ''z'' (Num 3)]) init))
     \<lparr>runQueue := [(''/t1'', None), (''/t2'', None)]\<rparr>"

section \<open>Key sequences\<close>

text \<open>
  A \<open>KeySequence\<close> holds the lookup object \<open>_Q_\<close>, a plain object whose own properties
  map the keys to the number of the next occurrence; \<open>nextKey\<close> is its method \<open>c_\<close>,
  returning the key to use and the sequence as the call leaves it. \<open>lookup[key]++\<close> on
  a key that is no own property yields \<open>NaN\<close> (of \<open>undefined\<close>, or of the function
  inherited under that name), which is falsy as \<open>0\<close> is, and the key then gets the
  number 1. Under \<open>__proto__\<close> the object has the accessor of \<open>Object.prototype\<close>: what
  is read is the prototype, \<open>NaN\<close> as a number, and the two assignments of a number
  are ignored by the setter, so that no own property is created. The numbers are
  doubles: the increment adds one below \<open>2^53\<close> and nothing from there on. \<open>decimal\<close>
  is the string of such a number as \<open>+\<close> appends it.
\<close>

fun decimal :: "nat \<Rightarrow> string" where
  "decimal n =
     (if n < 10 then [char_of (48 + n)]
      else decimal (n div 10) @ [char_of (48 + n mod 10)])"

type_synonym keySequence = "string \<rightharpoonup> nat"

definition KeySequence :: keySequence where
  "KeySequence = Map.empty"

definition increment :: "nat \<Rightarrow> nat" where
  "increment n = (if n < 2 ^ 53 then n + 1 else n)"

definition nextKey :: "keySequence \<Rightarrow> string \<Rightarrow> string \<times> keySequence" where
  "nextKey lookup key =
     (if key = ''__proto__'' then (key, lookup)
      else
        (case lookup key of
           None \<Rightarrow> (key, lookup(key \<mapsto> 1))
         | Some currentIndex \<Rightarrow>
             if currentIndex = 0 then (key, lookup(key \<mapsto> 1))
             else (key @ ''_'' @ decimal currentIndex, lookup(key \<mapsto> increment currentIndex))))"

text \<open>The keys returned to a scope that asks for \<open>keys\<close>, one after the other.\<close>

fun nextKeys :: "keySequence \<Rightarrow> string list \<Rightarrow> string list" where
  "nextKeys lookup [] = []"
| "nextKeys lookup (key # keys) =
     fst (nextKey lookup key) # nextKeys (snd (nextKey lookup key)) keys"

text \<open>
  What the specification says: the key as it is when it has not been seen, and with the
  number of the times it has been seen as its suffix otherwise. The number is written
  in decimal: \<open>decimalValue\<close> reads a string of digits as a number.
\<close>

definition occurrence :: "string \<Rightarrow> nat \<Rightarrow> string" where
  "occurrence key seen = (if seen = 0 then key else key @ ''_'' @ decimal seen)"

definition isDigit :: "char \<Rightarrow> bool" where
  "isDigit c = (c \<in> set ''0123456789'')"

definition decimalValue :: "string \<Rightarrow> nat" where
  "decimalValue digits = foldl (\<lambda>v c. 10 * v + (of_char c - 48)) 0 digits"

text \<open>
  The lookup object of a sequence that has been asked for the keys \<open>seen\<close>, less than
  \<open>2^53\<close> of them.
\<close>

definition counted :: "string list \<Rightarrow> keySequence" where
  "counted seen =
     (\<lambda>k. if k = ''__proto__'' \<or> count_list seen k = 0 then None
          else Some (count_list seen k))"

section \<open>What a call may change\<close>

text \<open>
  \<open>later S st st'\<close>: the state \<open>st'\<close> comes after \<open>st\<close> in a run of the loader. The
  registrations are those of \<open>st\<close>, the instance cache has kept every entry, and the
  module instances of \<open>st\<close> are unchanged but for those at the addresses in \<open>S\<close>.
  \<open>later_n n\<close> says so of every call with fuel \<open>n\<close>.
\<close>

definition later :: "nat set \<Rightarrow> loader \<Rightarrow> loader \<Rightarrow> bool" where
  "later S st st' =
     (definitions st' = definitions st \<and> searchPaths st' = searchPaths st
      \<and> installed st' = installed st \<and> builtins st' = builtins st \<and> mains st' = mains st
      \<and> remapped st' = remapped st
      \<and> loadedGlobalsByRealPath st' = loadedGlobalsByRealPath st
      \<and> instanceCache st \<subseteq>\<^sub>m instanceCache st'
      \<and> length (modules st) \<le> length (modules st')
      \<and> (\<forall>i<length (modules st). i \<notin> S \<longrightarrow> modules st' ! i = modules st ! i))"

definition later_n :: "nat \<Rightarrow> bool" where
  "later_n n =
     ((\<forall>st target frm r st'. requireModule n st target frm = Some (r, st') \<longrightarrow> later {} st st')
      \<and> (\<forall>st m d r st'. load n st m d = Some (r, st') \<longrightarrow> later {m} st st')
      \<and> (\<forall>st m a dirname body r st'.
            runFactory n st m a dirname body = Some (r, st') \<longrightarrow> later {m} st st')
      \<and> (\<forall>st dirname target r st'.
            instanceRequire n st dirname target = Some (r, st') \<longrightarrow> later {} st st')
      \<and> (\<forall>st path options r st'. run n st path options = Some (r, st') \<longrightarrow> later {} st st')
      \<and> (\<forall>st queue r st'. runAll n st queue = Some (r, st') \<longrightarrow> later {} st st')
      \<and> (\<forall>st r st'. readyLoop n st = Some (r, st') \<longrightarrow> later {} st st')
      \<and> (\<forall>st r st'. ready n st = Some (r, st') \<longrightarrow> later {} st st')
      \<and> (\<forall>st r st'. onPendingComplete n st = Some (r, st') \<longrightarrow> later {} st st'))"

section \<open>Properties of path normalisation\<close>

lemma charAt_0_Cons: "charAt (c # s) 0 = [c]"
  by (simp add: charAt_def)

text \<open>
  The loop of \<open>normalizePathParts\<close> over the indices from \<open>i\<close> on, against the walk over
  the segments not yet read: the array keeps its length, the part of it not yet read is
  untouched, and the first \<open>len\<close> elements are the segments kept.
\<close>

lemma normalize_loop:
  "length ps = i + length rest \<Longrightarrow> drop i ps = rest \<Longrightarrow> len \<le> int i \<Longrightarrow>
   keptOf (fold (\<lambda>i s. normalizeStep s i) [i..<i + length rest] (ps, len)) =
     keepSegments (fst (keptOf (ps, len))) (snd (keptOf (ps, len))) rest
   \<and> length (fst (fold (\<lambda>i s. normalizeStep s i) [i..<i + length rest] (ps, len))) = length ps
   \<and> snd (fold (\<lambda>i s. normalizeStep s i) [i..<i + length rest] (ps, len)) \<le> int (length ps)"
proof (induction rest arbitrary: ps i len)
  case Nil
  then show ?case by simp
next
  case (Cons p rest)
  have il: "i < length ps" using Cons.prems by simp
  have hd_tl: "ps ! i # drop (Suc i) ps = p # rest"
    using Cons_nth_drop_Suc[OF il] Cons.prems(2) by simp
  have pi: "ps ! i = p" using hd_tl by simp
  have dr: "drop (Suc i) ps = rest" using hd_tl by simp
  have upt: "[i..<Suc (i + length rest)] = i # [Suc i..<Suc (i + length rest)]"
    by (simp add: upt_rec)
  show ?case
  proof (cases "p = ''.''")
    case True
    then have st: "normalizeStep (ps, len) i = (ps, len)"
      by (simp add: normalizeStep_def pi)
    have "length ps = Suc i + length rest" using Cons.prems by simp
    from Cons.IH[OF this dr, of len] Cons.prems(3) True show ?thesis
      by (simp add: upt st del: upt_Suc)
  next
    case False
    note notdot = False
    show ?thesis
    proof (cases "p = ''..''")
      case True
      then have st: "normalizeStep (ps, len) i = (ps, len - 1)"
        by (simp add: normalizeStep_def pi)
      have l: "length ps = Suc i + length rest" using Cons.prems by simp
      have k: "fst (keptOf (ps, len - 1)) =
                 (if fst (keptOf (ps, len)) = [] then [] else butlast (fst (keptOf (ps, len))))
          \<and> snd (keptOf (ps, len - 1)) =
                 (if fst (keptOf (ps, len)) = [] then Suc (snd (keptOf (ps, len)))
                  else snd (keptOf (ps, len)))"
        using il Cons.prems(3)
        by (auto simp: keptOf_def butlast_take nat_diff_distrib' take_eq_Nil)
      from Cons.IH[OF l dr, of "len - 1"] Cons.prems(3) True k show ?thesis
        by (simp add: upt st del: upt_Suc)
    next
      case False
      show ?thesis
      proof (cases "0 \<le> len")
        case True
        have st: "normalizeStep (ps, len) i = (ps[nat len := p], len + 1)"
          using False notdot True by (simp add: normalizeStep_def pi)
        have l: "length (ps[nat len := p]) = Suc i + length rest" using Cons.prems by simp
        have dr': "drop (Suc i) (ps[nat len := p]) = rest" using dr Cons.prems(3) by simp
        have k: "keptOf (ps[nat len := p], len + 1) = (fst (keptOf (ps, len)) @ [p], 0)"
          "snd (keptOf (ps, len)) = 0"
          using il Cons.prems(3) True
          by (auto simp: keptOf_def nat_add_distrib take_Suc_conv_app_nth)
        have le: "len + 1 \<le> int (Suc i)" using Cons.prems(3) by simp
        from Cons.IH[OF l dr' le] False notdot k show ?thesis
          by (simp add: upt st del: upt_Suc)
      next
        case neg: False
        have st: "normalizeStep (ps, len) i = (ps, len + 1)"
          using False notdot neg by (simp add: normalizeStep_def pi)
        have l: "length ps = Suc i + length rest" using Cons.prems by simp
        have k: "keptOf (ps, len + 1) = (fst (keptOf (ps, len)), snd (keptOf (ps, len)) - 1)"
          "snd (keptOf (ps, len)) \<noteq> 0"
          using neg by (auto simp: keptOf_def nat_diff_distrib')
        have le: "len + 1 \<le> int (Suc i)" using Cons.prems(3) by simp
        from Cons.IH[OF l dr le] False notdot k show ?thesis
          by (simp add: upt st del: upt_Suc)
      qed
    qed
  qed
qed

lemma normalizePathParts_keepSegments:
  "normalizePathParts parts = finishSegments (keepSegments [] 0 parts)"
proof -
  obtain ps len where s: "fold (\<lambda>i s. normalizeStep s i) [0..<length parts] (parts, 0) = (ps, len)"
    by (cases "fold (\<lambda>i s. normalizeStep s i) [0..<length parts] (parts, 0)") auto
  have inv: "keptOf (ps, len) = keepSegments [] 0 parts" "length ps = length parts"
    "len \<le> int (length parts)"
    using normalize_loop[of parts 0 parts 0] s by (simp_all add: keptOf_def)
  show ?thesis
  proof (cases "len < 0")
    case True
    then have "keepSegments [] 0 parts = ([], nat (- len))" using inv(1) by (simp add: keptOf_def)
    then show ?thesis using True s
      by (simp add: normalizePathParts_def finishSegments_def Let_def)
  next
    case False
    then have k: "keepSegments [] 0 parts = (take (nat len) ps, 0)"
      using inv(1) by (simp add: keptOf_def)
    have len_k: "length (take (nat len) ps) = nat len" using inv False by simp
    have last_k: "2 < len \<Longrightarrow> last (take (nat len) ps) = ps ! nat (len - 1)"
    proof -
      assume a: "2 < len"
      then have ne: "take (nat len) ps \<noteq> []" using inv by auto
      have "nat (len - 1) < nat len" using a by simp
      then show ?thesis using len_k a
        by (simp add: last_conv_nth[OF ne] nat_diff_distrib')
    qed
    have bl: "butlast (take (nat len) ps) = take (nat (len - 1)) ps"
      using inv False by (simp add: butlast_take nat_diff_distrib')
    define kept where "kept = fst (keepSegments [] 0 parts)"
    have d0: "snd (keepSegments [] 0 parts) = 0" using k by simp
    have lk: "length kept = nat len" using k len_k by (simp add: kept_def)
    have la: "2 < len \<Longrightarrow> last kept = ps ! nat (len - 1)"
      using last_k k by (simp add: kept_def)
    have bk: "join_arr (take (nat (len - 1)) ps) = join_arr (butlast kept)"
      using bl k by (simp add: kept_def)
    have jk: "join_arr (take (nat len) ps) = join_arr kept"
      using k by (simp add: kept_def)
    have n: "normalizePathParts parts =
        (if len = 1 then Inr ''/''
         else if len > 2 \<and> ps ! nat (len - 1) = [] then Inr (join_arr (take (nat (len - 1)) ps))
         else Inr (join_arr (take (nat len) ps)))"
      using s False by (simp add: normalizePathParts_def Let_def)
    have f: "finishSegments (keepSegments [] 0 parts) =
        (if length kept = 1 then Inr ''/''
         else if length kept > 2 \<and> last kept = [] then Inr (join_arr (butlast kept))
         else Inr (join_arr kept))"
      using d0 by (simp add: finishSegments_def Let_def kept_def)
    have e1: "(length kept = 1) = (len = 1)" using lk False by auto
    have e2: "(length kept > 2) = (len > 2)" using lk False by auto
    show ?thesis unfolding n f e1 e2 bk jk using la by auto
  qed
qed

lemma keepSegments_ordinary:
  "list_all ordinary segs \<Longrightarrow>
   keepSegments kept 0 (segs @ rest) = keepSegments (kept @ segs) 0 rest"
  by (induction segs arbitrary: kept) (auto simp: ordinary_def)

lemma keepSegments_dotdots:
  "keepSegments kept debt (replicate k ''..'') =
     (take (length kept - k) kept, debt + (k - length kept))"
proof (induction k arbitrary: kept debt)
  case 0
  then show ?case by simp
next
  case (Suc k)
  show ?case
  proof (cases kept rule: rev_cases)
    case Nil
    then show ?thesis using Suc.IH[of "[]" "Suc debt"] by simp
  next
    case (snoc ys y)
    have "keepSegments kept debt (replicate (Suc k) ''..'') =
        keepSegments ys debt (replicate k ''..'')"
      using snoc by simp
    also have "\<dots> = (take (length ys - k) ys, debt + (k - length ys))"
      by (rule Suc.IH)
    finally show ?thesis using snoc by simp
  qed
qed

lemma normalizePathParts_dotdots:
  assumes "list_all ordinary segs"
  shows "normalizePathParts (segs @ replicate k ''..'') =
     (if length segs < k then Inl RangeError
      else finishSegments (take (length segs - k) segs, 0))"
  using keepSegments_ordinary[OF assms, of "[]" "replicate k ''..''"]
  by (simp add: normalizePathParts_keepSegments keepSegments_dotdots finishSegments_def)

lemma join_root_two_up: "join ''/'' ''../..'' = Inl RangeError"
  by code_simp

lemma join_a_two_up: "join ''/a'' ''../..'' = Inr []"
  by code_simp

lemma join_lib_a: "join ''/pkg$1.0.0/lib'' ''./a'' = Inr ''/pkg$1.0.0/lib/a''"
  by code_simp

lemma join_lib_other: "join ''/pkg$1.0.0/lib'' ''../other'' = Inr ''/pkg$1.0.0/other''"
  by code_simp

lemma dirnameOf_lib_index: "dirnameOf ''/pkg$1.0.0/lib/index'' = ''/pkg$1.0.0/lib''"
  by code_simp

lemma resolve_lib_a:
  "resolve 1 (def ''/pkg$1.0.0/lib/a'' (Literal (Num 1)) init) ''./a''
     (Some (dirnameOf ''/pkg$1.0.0/lib/index'')) =
   Some (Inr (Some (''/pkg$1.0.0/lib/a'', Literal (Num 1))))"
  by code_simp

lemma require_index_loads_sibling:
  "(case requireModule 6
           (def ''/pkg$1.0.0/lib/index'' (Factory [Require ''./a''])
             (def ''/pkg$1.0.0/lib/a'' (Literal (Num 1)) init))
           ''/pkg$1.0.0/lib/index'' (Some ''/'') of
      None \<Rightarrow> None
    | Some r \<Rightarrow> instanceCache (snd r) ''/pkg$1.0.0/lib/a'') = Some 1"
  by code_simp

lemma keepSegments_append:
  "keepSegments kept debt (xs @ ys) =
     keepSegments (fst (keepSegments kept debt xs)) (snd (keepSegments kept debt xs)) ys"
  by (induction xs arbitrary: kept debt) auto

lemma keepSegments_debt:
  "(0 < debt \<longrightarrow> kept = []) \<Longrightarrow>
   0 < snd (keepSegments kept debt ps) \<longrightarrow> fst (keepSegments kept debt ps) = []"
  by (induction ps arbitrary: kept debt) auto

lemma normalize_dot: "normalizePathParts (xs @ ''.'' # ys) = normalizePathParts (xs @ ys)"
  by (simp add: normalizePathParts_keepSegments keepSegments_append[of _ _ xs])

lemma normalize_dotdot:
  assumes "ordinary seg"
  shows "normalizePathParts (xs @ seg # ''..'' # ys) = normalizePathParts (xs @ ys)"
proof -
  obtain k d where kd: "keepSegments [] 0 xs = (k, d)"
    by (cases "keepSegments [] 0 xs") auto
  have inv: "0 < d \<longrightarrow> k = []" using keepSegments_debt[of 0 "[]" xs] kd by simp
  have "keepSegments k d (seg # ''..'' # ys) = keepSegments k d ys"
  proof (cases "d = 0")
    case True
    then show ?thesis using assms by (simp add: ordinary_def)
  next
    case False
    then have "k = []" using inv by simp
    then show ?thesis using assms False by (simp add: ordinary_def)
  qed
  then show ?thesis
    by (simp add: normalizePathParts_keepSegments keepSegments_append[of _ _ xs] kd)
qed

lemma normalize_ordinary:
  assumes "list_all ordinary segs"
  shows "normalizePathParts segs =
     (if length segs = 1 then Inr ''/''
      else if 2 < length segs \<and> last segs = [] then Inr (join_arr (butlast segs))
      else Inr (join_arr segs))"
  using keepSegments_ordinary[OF assms, of "[]" "[]"]
  by (simp add: normalizePathParts_keepSegments finishSegments_def)

lemma split_str_not_Nil: "split_str s \<noteq> []"
  by (induction s) (auto split: list.splits)

lemma join_arr_Cons_char: "join_arr ((x # p) # ps) = x # join_arr (p # ps)"
  by (cases ps) auto

lemma join_split: "join_arr (split_str s) = s"
proof (induction s)
  case Nil
  then show ?case by simp
next
  case (Cons x xs)
  obtain p ps where s: "split_str xs = p # ps"
    using split_str_not_Nil[of xs] by (cases "split_str xs") auto
  show ?case using Cons.IH s by (simp add: join_arr_Cons_char)
qed

lemma split_no_slash: "p \<in> set (split_str s) \<Longrightarrow> CHR ''/'' \<notin> set p"
  by (induction s arbitrary: p) (auto split: list.splits if_splits)

lemma join_trailing_two: "join ''/a'' ''./b//'' = Inr ''/a/b/''"
  by code_simp

lemma join_trailing_one: "join ''/a'' ''./b/'' = Inr ''/a/b''"
  by code_simp

lemma resolve_trailing_one:
  "resolve 1 slashPage ''./b/'' (Some ''/a'') = Some (Inr (Some (''/a/b'', Literal (Num 1))))"
  by code_simp

lemma resolve_trailing_two: "resolve 1 slashPage ''./b//'' (Some ''/a'') = Some (Inr None)"
  by code_simp

text \<open>
  C3, as the claim states it: trailing empty segments would be collapsed. A specifier
  that ends in two slashes has two trailing empty segments, of which one is left: joined
  to \<open>/a\<close>, \<open>./b//\<close> is \<open>/a/b/\<close>, and where \<open>./b/\<close> resolves to the module
  \<open>/a/b\<close>, \<open>./b//\<close> resolves to nothing.
\<close>

theorem trailing_empty_segments_not_collapsed_counterexample:
  "join ''/a'' ''./b//'' = Inr ''/a/b/''
   \<and> join ''/a'' ''./b/'' = Inr ''/a/b''
   \<and> resolve 1 slashPage ''./b/'' (Some ''/a'') = Some (Inr (Some (''/a/b'', Literal (Num 1))))
   \<and> resolve 1 slashPage ''./b//'' (Some ''/a'') = Some (Inr None)"
  by (intro conjI join_trailing_two join_trailing_one resolve_trailing_one resolve_trailing_two)

text \<open>
  C3, amended. A relative specifier is joined against the directory that \<open>resolve\<close> is
  given (the directory of the requiring module, for the \<open>require\<close> injected into a
  factory): the segments of the directory (one empty segment for \<open>/\<close>) followed by
  those of the specifier are normalised, and the definition is looked up at the result;
  an absolute specifier is normalised only. The segments are what lies between the
  slashes. Normalising elides every \<open>.\<close>, and lets every \<open>..\<close> cancel the segment
  before it (a segment that is neither \<open>.\<close> nor \<open>..\<close>). Segments among which no
  \<open>.\<close> and no \<open>..\<close> is left are joined by slashes: a single segment gives \<open>/\<close>,
  and one trailing empty segment is dropped when more than two segments remain, not more
  than one. So \<open>./a\<close> required by the module \<open>/pkg$1.0.0/lib/index\<close> resolves to
  \<open>/pkg$1.0.0/lib/a\<close>, and \<open>/pkg$1.0.0/lib\<close> joined with \<open>../other\<close> is
  \<open>/pkg$1.0.0/other\<close>.
\<close>

theorem relative_specifier_joined_and_normalized:
  "resolve (Suc n) st (CHR ''.'' # t) (Some f) =
     (case join f (CHR ''.'' # t) of
        Inl e \<Rightarrow> Some (Inl e)
      | Inr p \<Rightarrow> Some (resolve_lookup st (Some p)))
   \<and> resolve (Suc n) st (CHR ''/'' # t) frm =
       (case normalizePathParts (split_str (CHR ''/'' # t)) of
          Inl e \<Rightarrow> Some (Inl e)
        | Inr p \<Rightarrow> Some (resolve_lookup st (Some p)))
   \<and> join f t' = normalizePathParts ((if f = ''/'' then [[]] else split_str f) @ split_str t')
   \<and> join_arr (split_str s) = s
   \<and> (\<forall>p\<in>set (split_str s). CHR ''/'' \<notin> set p)
   \<and> normalizePathParts (xs @ ''.'' # ys) = normalizePathParts (xs @ ys)
   \<and> (seg \<noteq> ''.'' \<and> seg \<noteq> ''..'' \<longrightarrow>
        normalizePathParts (xs @ seg # ''..'' # ys) = normalizePathParts (xs @ ys))
   \<and> ((\<forall>p\<in>set segs. p \<noteq> ''.'' \<and> p \<noteq> ''..'') \<longrightarrow>
        normalizePathParts segs =
          (if length segs = 1 then Inr ''/''
           else if 2 < length segs \<and> last segs = [] then Inr (join_arr (butlast segs))
           else Inr (join_arr segs)))
   \<and> join ''/pkg$1.0.0/lib'' ''./a'' = Inr ''/pkg$1.0.0/lib/a''
   \<and> dirnameOf ''/pkg$1.0.0/lib/index'' = ''/pkg$1.0.0/lib''
   \<and> resolve 1 (def ''/pkg$1.0.0/lib/a'' (Literal (Num 1)) init) ''./a''
         (Some (dirnameOf ''/pkg$1.0.0/lib/index'')) =
       Some (Inr (Some (''/pkg$1.0.0/lib/a'', Literal (Num 1))))
   \<and> (case requireModule 6
              (def ''/pkg$1.0.0/lib/index'' (Factory [Require ''./a''])
                (def ''/pkg$1.0.0/lib/a'' (Literal (Num 1)) init))
              ''/pkg$1.0.0/lib/index'' (Some ''/'') of
         None \<Rightarrow> None
       | Some r \<Rightarrow> instanceCache (snd r) ''/pkg$1.0.0/lib/a'') = Some 1
   \<and> join ''/pkg$1.0.0/lib'' ''../other'' = Inr ''/pkg$1.0.0/other''"
proof (intro conjI impI ballI)
  show "resolve (Suc n) st (CHR ''.'' # t) (Some f) =
     (case join f (CHR ''.'' # t) of
        Inl e \<Rightarrow> Some (Inl e)
      | Inr p \<Rightarrow> Some (resolve_lookup st (Some p)))"
    by (simp add: charAt_def)
  show "resolve (Suc n) st (CHR ''/'' # t) frm =
       (case normalizePathParts (split_str (CHR ''/'' # t)) of
          Inl e \<Rightarrow> Some (Inl e)
        | Inr p \<Rightarrow> Some (resolve_lookup st (Some p)))"
    by (simp add: charAt_def)
  show "join f t' = normalizePathParts ((if f = ''/'' then [[]] else split_str f) @ split_str t')"
    by (simp add: join_def)
  show "join_arr (split_str s) = s"
    by (rule join_split)
  show "CHR ''/'' \<notin> set p" if "p \<in> set (split_str s)" for p
    using that by (rule split_no_slash)
  show "normalizePathParts (xs @ ''.'' # ys) = normalizePathParts (xs @ ys)"
    by (rule normalize_dot)
  show "normalizePathParts (xs @ seg # ''..'' # ys) = normalizePathParts (xs @ ys)"
    if "seg \<noteq> ''.'' \<and> seg \<noteq> ''..''"
    using that by (intro normalize_dotdot) (simp add: ordinary_def)
  show "normalizePathParts segs =
          (if length segs = 1 then Inr ''/''
           else if 2 < length segs \<and> last segs = [] then Inr (join_arr (butlast segs))
           else Inr (join_arr segs))"
    if "\<forall>p\<in>set segs. p \<noteq> ''.'' \<and> p \<noteq> ''..''"
    using that by (intro normalize_ordinary) (simp add: list_all_iff ordinary_def)
qed (rule join_lib_a dirnameOf_lib_index resolve_lib_a require_index_loads_sibling join_lib_other)+

theorem relative_specifier_joined_and_normalized_witness:
  "normalizePathParts [[], ''pkg$1.0.0'', ''lib'', ''..'', ''other''] = Inr ''/pkg$1.0.0/other''
   \<and> normalizePathParts [[], ''pkg$1.0.0'', ''lib'', ''.'', ''a''] = Inr ''/pkg$1.0.0/lib/a''
   \<and> normalizePathParts [[], ''.''] = Inr ''/''
   \<and> normalizePathParts [[], ''a'', ''b'', []] = Inr ''/a/b''
   \<and> normalizePathParts [[], ''a'', ''b'', [], []] = Inr ''/a/b/''
   \<and> split_str ''/a/b//'' = [[], ''a'', ''b'', [], []]
   \<and> CHR ''/'' \<notin> set (split_str ''/a/b//'' ! 1)
   \<and> join_arr (split_str ''/a/b//'') = ''/a/b//''"
proof -
  note T = relative_specifier_joined_and_normalized
  have 1: "normalizePathParts [[], ''pkg$1.0.0'', ''lib'', ''..'', ''other''] =
      normalizePathParts [[], ''pkg$1.0.0'', ''other'']"
    using T[where xs = "[[], ''pkg$1.0.0'']" and seg = "''lib''" and ys = "[''other'']"]
    by simp
  have 2: "normalizePathParts [[], ''pkg$1.0.0'', ''other''] = Inr ''/pkg$1.0.0/other''"
    using T[where segs = "[[], ''pkg$1.0.0'', ''other'']"] by simp
  have 3: "normalizePathParts [[], ''pkg$1.0.0'', ''lib'', ''.'', ''a''] =
      normalizePathParts [[], ''pkg$1.0.0'', ''lib'', ''a'']"
    using T[where xs = "[[], ''pkg$1.0.0'', ''lib'']" and ys = "[''a'']"] by simp
  have 4: "normalizePathParts [[], ''pkg$1.0.0'', ''lib'', ''a''] = Inr ''/pkg$1.0.0/lib/a''"
    using T[where segs = "[[], ''pkg$1.0.0'', ''lib'', ''a'']"] by simp
  have 5: "normalizePathParts [[], ''.''] = normalizePathParts [[]]"
    using T[where xs = "[[]]" and ys = "[]"] by simp
  have 6: "normalizePathParts [[]] = Inr ''/''"
    using T[where segs = "[[]]"] by simp
  have 7: "normalizePathParts [[], ''a'', ''b'', []] = Inr ''/a/b''"
    using T[where segs = "[[], ''a'', ''b'', []]"] by simp
  have 8: "normalizePathParts [[], ''a'', ''b'', [], []] = Inr ''/a/b/''"
    using T[where segs = "[[], ''a'', ''b'', [], []]"] by simp
  have 9: "split_str ''/a/b//'' = [[], ''a'', ''b'', [], []]" by simp
  have "split_str ''/a/b//'' ! 1 \<in> set (split_str ''/a/b//'')" by (rule nth_mem) (simp add: 9)
  then have 11: "CHR ''/'' \<notin> set (split_str ''/a/b//'' ! 1)"
    using T[where s = "''/a/b//''"] by blast
  have 10: "join_arr (split_str ''/a/b//'') = ''/a/b//''"
    using T[where s = "''/a/b//''"] by blast
  show ?thesis using 1 2 3 4 5 6 7 8 9 10 11 by simp
qed

text \<open>
  C10. Nothing clamps a \<open>..\<close> at the root. After ordinary segments, as many \<open>..\<close> as
  there are segments leave the empty string, which \<open>resolve\<close> takes for no path, so that
  \<open>require\<close> raises module-not-found; one \<open>..\<close> more makes the length assigned to the
  array negative, a \<open>RangeError\<close>, and \<open>require\<close> and \<open>require.resolve\<close> throw it: joining
  \<open>/\<close> with \<open>../..\<close> does.
\<close>

theorem excess_dotdot_not_clamped:
  "list_all ordinary segs \<Longrightarrow>
     (length segs < k \<longrightarrow> normalizePathParts (segs @ replicate k ''..'') = Inl RangeError)
   \<and> (length segs = k \<longrightarrow> normalizePathParts (segs @ replicate k ''..'') = Inr [])
   \<and> join ''/a'' ''../..'' = Inr []
   \<and> resolve (Suc n) st ''../..'' (Some ''/a'') = Some (Inr None)
   \<and> requireModule (Suc n) st ''../..'' (Some ''/a'') =
         Some (Inl (moduleNotFoundError ''../..'' (Some ''/a'')), st)
   \<and> join ''/'' ''../..'' = Inl RangeError
   \<and> requireModule (Suc n) st ''../..'' (Some ''/'') = Some (Inl RangeError, st)
   \<and> require (Suc n) st ''../..'' (Some ''/'') = Some (Inl RangeError, st)
   \<and> instanceResolve (Suc n) st ''/'' ''../..'' = Some (Inl RangeError)"
proof (intro conjI impI)
  assume o: "list_all ordinary segs"
  show "normalizePathParts (segs @ replicate k ''..'') = Inl RangeError" if "length segs < k"
    using that by (simp add: normalizePathParts_dotdots[OF o])
  show "normalizePathParts (segs @ replicate k ''..'') = Inr []" if "length segs = k"
    using that by (simp add: normalizePathParts_dotdots[OF o] finishSegments_def)
  show "resolve (Suc n) st ''../..'' (Some ''/a'') = Some (Inr None)"
    by (simp add: join_a_two_up charAt_def resolve_lookup_def)
  show "requireModule (Suc n) st ''../..'' (Some ''/a'') =
         Some (Inl (moduleNotFoundError ''../..'' (Some ''/a'')), st)"
    by (simp add: join_a_two_up charAt_def resolve_lookup_def)
  show "requireModule (Suc n) st ''../..'' (Some ''/'') = Some (Inl RangeError, st)"
    by (simp add: join_root_two_up charAt_def)
  show "require (Suc n) st ''../..'' (Some ''/'') = Some (Inl RangeError, st)"
    by (simp add: join_root_two_up charAt_def require_def)
  show "instanceResolve (Suc n) st ''/'' ''../..'' = Some (Inl RangeError)"
    by (simp add: join_root_two_up charAt_def instanceResolve_def)
qed (rule join_a_two_up join_root_two_up)+

theorem excess_dotdot_not_clamped_witness:
  "list_all ordinary [[], ''a'']
   \<and> normalizePathParts ([[], ''a''] @ replicate 3 ''..'') = Inl RangeError
   \<and> normalizePathParts ([[], ''a''] @ replicate 2 ''..'') = Inr []
   \<and> requireModule (Suc 0) init ''../..'' (Some ''/'') = Some (Inl RangeError, init)"
  using excess_dotdot_not_clamped[of "[[], ''a'']" 3 0 init]
    excess_dotdot_not_clamped[of "[[], ''a'']" 2 0 init]
  by (simp add: ordinary_def)

section \<open>Properties of resolution\<close>



lemma clampIndex_nat: "k \<le> length s \<Longrightarrow> clampIndex s (int k) = k"
  by (simp add: clampIndex_def)










































lemma resolve_components:
  "resolve 1 markoPage ''/marko$4.18.10/dist/runtime/components'' (Some ''/'') =
     Some (Inr (Some (''/marko$4.18.10/dist/runtime/components/index-browser'', Literal (Num 2))))"
  by code_simp

























section \<open>What a call changes\<close>

lemma later_refl: "later S st st"
  by (simp add: later_def)

lemma later_trans: "later S a b \<Longrightarrow> later S b c \<Longrightarrow> later S a c"
  unfolding later_def by (auto intro: map_le_trans)

lemma later_mono: "later S a b \<Longrightarrow> S \<subseteq> T \<Longrightarrow> later T a b"
  unfolding later_def by auto

lemma later_post:
  "later S st st' \<Longrightarrow> later S st (st'\<lparr>runQueue := q\<rparr>)"
  "later S st st' \<Longrightarrow> later S st (st'\<lparr>ready_flag := b\<rparr>)"
  "later S st st' \<Longrightarrow> later S st (st'\<lparr>pendingCount := k\<rparr>)"
  "later S st st' \<Longrightarrow> later S st (st'\<lparr>cacheByDirname := cd\<rparr>)"
  "later S st st' \<Longrightarrow> later S st (st'\<lparr>objects := os\<rparr>)"
  "later S st st' \<Longrightarrow> later S st (st'\<lparr>ready_flag := b, pendingCount := k\<rparr>)"
  "later S st st' \<Longrightarrow> later S st (putProperty st' a key v)"
  "later S st st' \<Longrightarrow> m \<in> S \<Longrightarrow> later S st (setExports st' m v)"
  "later S st st' \<Longrightarrow> m \<in> S \<Longrightarrow> later S st (setLoaded st' m)"
  unfolding later_def putProperty_def setExports_def setLoaded_def
  by (auto, (metis nth_list_update_neq)+)

lemma later_pre:
  "later S (st\<lparr>runQueue := q\<rparr>) st' \<Longrightarrow> later S st st'"
  "later S (st\<lparr>ready_flag := b\<rparr>) st' \<Longrightarrow> later S st st'"
  "later S (st\<lparr>pendingCount := k\<rparr>) st' \<Longrightarrow> later S st st'"
  "later S (st\<lparr>cacheByDirname := cd\<rparr>) st' \<Longrightarrow> later S st st'"
  "later S (st\<lparr>objects := os\<rparr>) st' \<Longrightarrow> later S st st'"
  unfolding later_def by auto

lemma later_pre_setExports:
  "later S (setExports st m v) st' \<Longrightarrow> m \<in> S \<Longrightarrow> later S st st'"
  unfolding later_def setExports_def by (auto, (metis nth_list_update_neq)+)

lemma later_new_module:
  "instanceCache st p = None \<Longrightarrow>
   later {length (modules st)}
     (st\<lparr>modules := modules st @ [x], instanceCache := (instanceCache st)(p \<mapsto> length (modules st))\<rparr>) st' \<Longrightarrow>
   later {} st st'"
  unfolding later_def by (auto simp: map_le_def nth_append dom_def split: if_splits) 


lemma later_nD:
  assumes "later_n n"
  shows "requireModule n st target frm = Some (r1, st') \<Longrightarrow> later {} st st'"
    and "load n st m d = Some (r2, st') \<Longrightarrow> later {m} st st'"
    and "runFactory n st m a dirname body = Some (r3, st') \<Longrightarrow> later {m} st st'"
    and "instanceRequire n st dirname target = Some (r4, st') \<Longrightarrow> later {} st st'"
    and "run n st path options = Some (r5, st') \<Longrightarrow> later {} st st'"
    and "runAll n st queue = Some (r6, st') \<Longrightarrow> later {} st st'"
    and "readyLoop n st = Some (r7, st') \<Longrightarrow> later {} st st'"
    and "ready n st = Some (r8, st') \<Longrightarrow> later {} st st'"
    and "onPendingComplete n st = Some (r9, st') \<Longrightarrow> later {} st st'"
  using assms unfolding later_n_def by simp_all

lemma step_requireModule:
  assumes "later_n n" and "requireModule (Suc n) st target frm = Some (r, st')"
  shows "later {} st st'"
  using assms(2)
  by (auto simp: Let_def later_refl split: option.splits sum.splits prod.splits if_splits
      dest!: later_nD(2)[OF assms(1)] intro: later_new_module)

lemma step_load:
  assumes "later_n n" and "load (Suc n) st m d = Some (r, st')"
  shows "later {m} st st'"
proof (cases d)
  case (Literal v)
  then show ?thesis using assms(2) by (auto intro!: later_post later_refl)
next
  case (Factory body)
  define dirname where "dirname = dirnameOf (filename (modules st ! m))"
  define st1 where "st1 = (case cacheByDirname st dirname of
                        Some c \<Rightarrow> st
                      | None \<Rightarrow> st\<lparr>cacheByDirname := (cacheByDirname st)(dirname \<mapsto> Map.empty)\<rparr>)"
  define st2 where "st2 = setExports (st1\<lparr>objects := objects st1 @ [Map.empty]\<rparr>) m (Obj (length (objects st1)))"
  have 1: "later {m} st st1"
    by (auto simp: st1_def split: option.splits intro!: later_post later_refl)
  have 2: "later {m} st1 st2"
    unfolding st2_def by (auto intro!: later_post later_refl)
  obtain r' st3 where rf: "runFactory n st2 m (length (objects st1)) dirname body = Some (r', st3)"
    and st': "st' = st3 \<or> st' = setLoaded st3 m"
    using assms(2) Factory
    by (auto simp: Let_def st2_def st1_def dirname_def split: option.splits sum.splits prod.splits)
  have 3: "later {m} st2 st3" using later_nD(3)[OF assms(1) rf] .
  have "later {m} st st3" using 1 2 3 by (blast intro: later_trans)
  then show ?thesis using st' by (auto intro: later_post)
qed

lemma step_runFactory:
  assumes "later_n n"
  shows "runFactory (Suc n) st m a dirname body = Some (r, st') \<Longrightarrow> later {m} st st'"
proof (induction body arbitrary: st)
  case Nil
  then show ?case by (simp add: later_refl)
next
  case (Cons act body)
  obtain st1 where h: "later {m} st st1"
    and k: "st' = st1 \<or> runFactory (Suc n) st1 m a dirname body = Some (r, st')"
  proof (cases act)
    case (Require t)
    then show ?thesis using Cons.prems that
      by (auto split: option.splits sum.splits prod.splits
          dest!: later_nD(4)[OF assms] intro: later_mono)
  next
    case (RequireInto key t)
    then show ?thesis using Cons.prems that
      by (auto split: option.splits sum.splits prod.splits
          dest!: later_nD(4)[OF assms] intro!: later_post intro: later_mono)
  next
    case (ResolveInto key t)
    then show ?thesis using Cons.prems that
      by (auto split: option.splits sum.splits prod.splits intro!: later_post later_refl)
  next
    case (SetExport key v)
    then show ?thesis using Cons.prems that
      by (auto split: option.splits sum.splits prod.splits intro!: later_post later_refl)
  next
    case (SetModuleExports v)
    then show ?thesis using Cons.prems that
      by (auto split: option.splits sum.splits prod.splits intro!: later_post later_refl)
  next
    case Pending
    then show ?thesis using Cons.prems that
      by (auto split: option.splits sum.splits prod.splits intro!: later_post later_refl)
  next
    case Done
    then show ?thesis using Cons.prems that
      by (auto split: option.splits sum.splits prod.splits
          dest!: later_nD(9)[OF assms] intro: later_mono)
  next
    case (Raise code msg)
    then show ?thesis using Cons.prems that
      by (auto split: option.splits sum.splits prod.splits intro!: later_post later_refl)
  qed
  from k show ?case
  proof
    assume "st' = st1" then show ?thesis using h by simp
  next
    assume "runFactory (Suc n) st1 m a dirname body = Some (r, st')"
    from Cons.IH[OF this] h show ?thesis by (blast intro: later_trans)
  qed
qed

lemma step_instanceRequire:
  assumes "later_n n" and "instanceRequire (Suc n) st dirname target = Some (r, st')"
  shows "later {} st st'"
  using assms(2)
  by (auto split: option.splits sum.splits prod.splits if_splits
      dest!: later_nD(1)[OF assms(1)] intro!: later_post later_refl)

lemma step_run:
  assumes "later_n n" and "run (Suc n) st path options = Some (r, st')"
  shows "later {} st st'"
  using assms(2)
  by (auto simp: Let_def split: option.splits sum.splits prod.splits if_splits
      dest!: later_nD(1)[OF assms(1)] intro!: later_post later_refl)

lemma step_runAll:
  assumes "later_n n"
  shows "runAll (Suc n) st queue = Some (r, st') \<Longrightarrow> later {} st st'"
proof (induction queue arbitrary: st)
  case Nil
  then show ?case by (simp add: later_refl)
next
  case (Cons args queue)
  obtain r1 st1 where h: "run n st (fst args) (snd args) = Some (r1, st1)"
    and k: "st' = st1 \<or> runAll (Suc n) st1 queue = Some (r, st')"
    using Cons.prems by (auto split: option.splits sum.splits prod.splits)
  have 1: "later {} st st1" using later_nD(5)[OF assms h] .
  from k show ?case
  proof
    assume "st' = st1" then show ?thesis using 1 by simp
  next
    assume "runAll (Suc n) st1 queue = Some (r, st')"
    from Cons.IH[OF this] 1 show ?thesis by (blast intro: later_trans)
  qed
qed

lemma step_readyLoop:
  assumes "later_n n" and "readyLoop (Suc n) st = Some (r, st')"
  shows "later {} st st'"
proof (cases "runQueue st = []")
  case True
  then show ?thesis using assms(2) by (simp add: later_refl)
next
  case False
  obtain r1 st1 where h: "runAll n (st\<lparr>runQueue := []\<rparr>) (runQueue st) = Some (r1, st1)"
    and k: "st' = st1 \<or> readyLoop n st1 = Some (r, st')"
    using assms(2) False
    by (auto simp: Let_def split: option.splits sum.splits prod.splits if_splits)
  have 1: "later {} st st1" using later_nD(6)[OF assms(1) h] by (rule later_pre)
  from k show ?thesis
  proof
    assume "st' = st1" then show ?thesis using 1 by simp
  next
    assume "readyLoop n st1 = Some (r, st')"
    from later_nD(7)[OF assms(1) this] 1 show ?thesis by (blast intro: later_trans)
  qed
qed

lemma step_ready:
  assumes "later_n n" and "ready (Suc n) st = Some (r, st')"
  shows "later {} st st'"
  using later_nD(7)[OF assms(1), of "st\<lparr>ready_flag := True\<rparr>" r st'] assms(2)
  by (auto intro: later_pre)

lemma step_onPendingComplete:
  assumes "later_n n" and "onPendingComplete (Suc n) st = Some (r, st')"
  shows "later {} st st'"
  using later_nD(8)[OF assms(1), of "st\<lparr>pendingCount := pendingCount st - 1\<rparr>" r st'] assms(2)
  by (auto simp: Let_def split: if_splits intro: later_pre intro!: later_post later_refl)

lemma later_n_0: "later_n 0"
  unfolding later_n_def
proof (intro conjI allI impI)
  fix st m a dirname body r st'
  assume "runFactory 0 st m a dirname body = Some (r, st')"
  then show "later {m} st st'" by (cases body) (auto simp: later_refl)
next
  fix st queue r st'
  assume "runAll 0 st queue = Some (r, st')"
  then show "later {} st st'" by (cases queue) (auto simp: later_refl)
qed simp_all

lemma later_n_all: "later_n n"
proof (induction n)
  case 0
  show ?case by (rule later_n_0)
next
  case (Suc n)
  show ?case unfolding later_n_def
    by (intro conjI allI impI)
      (erule step_requireModule[OF Suc] step_load[OF Suc] step_runFactory[OF Suc]
        step_instanceRequire[OF Suc] step_run[OF Suc] step_runAll[OF Suc]
        step_readyLoop[OF Suc] step_ready[OF Suc] step_onPendingComplete[OF Suc])+
qed

lemmas loader_later = later_nD[OF later_n_all]

section \<open>Module not found\<close>











lemma msg_empty: "moduleNotFoundError [] None = Error (Some ''MODULE_NOT_FOUND'') ''Cannot find module \"\"''"
  by (simp add: moduleNotFoundError_def)









section \<open>The instance cache and circular requires\<close>

lemma searchLoop_cong_fun: "(\<And>c. r c = r' c) \<Longrightarrow> searchLoop r sps t = searchLoop r' sps t"
  by (induction sps) (auto split: option.splits sum.splits)

lemma resolve_lookup_same:
  assumes "mains st' = mains st" "remapped st' = remapped st" "definitions st' = definitions st"
  shows "resolve_lookup st' c = resolve_lookup st c"
  unfolding resolve_lookup_def definitionOf_def assms by (rule refl)

lemma resolveInstalledModule_same:
  assumes "builtins st' = builtins st" "installed st' = installed st"
  shows "resolveInstalledModule st' t f = resolveInstalledModule st t f"
  unfolding resolveInstalledModule_def assms by (rule refl)

lemma later_resolve:
  assumes "later S st st'"
  shows "resolve n st' t f = resolve n st t f"
proof (induction n arbitrary: t)
  case 0
  show ?case by simp
next
  case (Suc n)
  have r: "definitions st' = definitions st" "searchPaths st' = searchPaths st"
    "installed st' = installed st" "builtins st' = builtins st" "mains st' = mains st"
    "remapped st' = remapped st"
    using assms by (simp_all add: later_def)
  have l: "\<And>c. resolve_lookup st' c = resolve_lookup st c"
    using r by (intro resolve_lookup_same) auto
  have i: "resolveInstalledModule st' t f = resolveInstalledModule st t f"
    using r by (intro resolveInstalledModule_same) auto
  have s: "searchLoop (\<lambda>candidate. resolve n st' candidate f) (searchPaths st') t =
      searchLoop (\<lambda>candidate. resolve n st candidate f) (searchPaths st) t"
    unfolding r(2) by (rule searchLoop_cong_fun) (rule Suc.IH)
  show ?case unfolding resolve.simps l i s by (rule refl)
qed

lemma require_twice:
  assumes "requireModule n st target frm = Some (Inr m, st')"
  shows "requireModule n st' target frm = Some (Inr m, st')"
proof (cases n)
  case 0
  then show ?thesis using assms by simp
next
  case (Suc k)
  have t: "target \<noteq> []" using assms Suc by (auto split: if_splits)
  obtain res where res: "resolve (Suc k) st target frm = Some (Inr (Some res))"
    using assms Suc t
    by (cases "resolve (Suc k) st target frm")
       (auto simp del: resolve.simps split: sum.splits option.splits)
  have l: "later {} st st'" using loader_later(1)[OF assms] .
  have res': "resolve (Suc k) st' target frm = Some (Inr (Some res))"
    using later_resolve[OF l] res by simp
  have c: "instanceCache st' (fst res) = Some m \<or>
      (instanceCache st' (fst res) = None \<and> loadedGlobalsByRealPath st' (fst res) = Some m)"
  proof (cases "instanceCache st (fst res)")
    case (Some m')
    then show ?thesis using assms Suc t res by (simp del: resolve.simps)
  next
    case None
    note nc = None
    show ?thesis
    proof (cases "loadedGlobalsByRealPath st (fst res)")
      case (Some g)
      then show ?thesis using assms Suc t res nc by (simp del: resolve.simps)
    next
      case None
      let ?m = "length (modules st)"
      let ?st1 = "st\<lparr>modules := modules st @ [newModule (fst res)],
                     instanceCache := (instanceCache st)(fst res \<mapsto> ?m)\<rparr>"
      from assms Suc t res nc None obtain r where
        ld: "load k ?st1 ?m (snd res) = Some (r, st')" and m: "m = ?m"
        by (auto simp: Let_def simp del: resolve.simps split: option.splits sum.splits prod.splits)
      from loader_later(2)[OF ld] have "instanceCache ?st1 \<subseteq>\<^sub>m instanceCache st'"
        by (simp add: later_def)
      then have "instanceCache st' (fst res) = Some ?m"
        by (auto simp: map_le_def dom_def)
      then show ?thesis using m by simp
    qed
  qed
  show ?thesis using c Suc t res' by (auto simp del: resolve.simps)
qed

lemma later_module:
  "later {} st st' \<Longrightarrow> m < length (modules st) \<Longrightarrow>
   modules st' ! m = modules st ! m \<and> m < length (modules st')"
  by (auto simp: later_def)

lemma runFactory_keeps_module:
  assumes no: "\<forall>v. SetModuleExports v \<notin> set body" and m: "m < length (modules st)"
    and run: "runFactory n st m a dirname body = Some (r, st')"
  shows "modules st' ! m = modules st ! m \<and> m < length (modules st')"
  using assms
proof (induction body arbitrary: st)
  case Nil
  then show ?case by simp
next
  case (Cons act body)
  obtain k where n: "n = Suc k" using Cons.prems by (cases n) auto
  obtain st1 where h: "modules st1 ! m = modules st ! m \<and> m < length (modules st1)"
    and k: "st' = st1 \<or> runFactory n st1 m a dirname body = Some (r, st')"
  proof (cases act)
    case (Require t)
    from Cons.prems(3) n Require obtain r1 s1 where
      ir: "instanceRequire k st dirname t = Some (r1, s1)"
      and k': "st' = s1 \<or> runFactory n s1 m a dirname body = Some (r, st')"
      by (auto split: option.splits sum.splits prod.splits)
    have ms: "modules s1 ! m = modules st ! m \<and> m < length (modules s1)"
      using later_module[OF loader_later(4)[OF ir] Cons.prems(2)] .
    show ?thesis using that[of s1] ms k' by simp
  next
    case (RequireInto key t)
    from Cons.prems(3) n RequireInto obtain r1 s1 where
      ir: "instanceRequire k st dirname t = Some (r1, s1)"
      and k': "st' = s1 \<or> (\<exists>v. runFactory n (putProperty s1 a key v) m a dirname body = Some (r, st'))"
      by (auto split: option.splits sum.splits prod.splits)
    have ms: "modules s1 ! m = modules st ! m \<and> m < length (modules s1)"
      using later_module[OF loader_later(4)[OF ir] Cons.prems(2)] .
    from k' show ?thesis
    proof
      assume "st' = s1" then show ?thesis using that[of s1] ms by simp
    next
      assume "\<exists>v. runFactory n (putProperty s1 a key v) m a dirname body = Some (r, st')"
      then obtain v where "runFactory n (putProperty s1 a key v) m a dirname body = Some (r, st')"
        by blast
      then show ?thesis using that[of "putProperty s1 a key v"] ms by (simp add: putProperty_def)
    qed
  next
    case (ResolveInto key t)
    from Cons.prems(3) n ResolveInto have
      "st' = st \<or> (\<exists>v. runFactory n (putProperty st a key v) m a dirname body = Some (r, st'))"
      by (auto split: option.splits sum.splits prod.splits)
    then show ?thesis
    proof
      assume "st' = st" then show ?thesis using that[of st] Cons.prems(2) by simp
    next
      assume "\<exists>v. runFactory n (putProperty st a key v) m a dirname body = Some (r, st')"
      then obtain v where "runFactory n (putProperty st a key v) m a dirname body = Some (r, st')"
        by blast
      then show ?thesis using that[of "putProperty st a key v"] Cons.prems(2)
        by (simp add: putProperty_def)
    qed
  next
    case (SetExport key v)
    then have "runFactory n (putProperty st a key v) m a dirname body = Some (r, st')"
      using Cons.prems(3) n by simp
    then show ?thesis using that[of "putProperty st a key v"] Cons.prems(2)
      by (simp add: putProperty_def)
  next
    case (SetModuleExports v)
    then show ?thesis using Cons.prems(1) by auto
  next
    case Pending
    then have "runFactory n (st\<lparr>ready_flag := False, pendingCount := pendingCount st + 1\<rparr>)
        m a dirname body = Some (r, st')"
      using Cons.prems(3) n by simp
    then show ?thesis
      using that[of "st\<lparr>ready_flag := False, pendingCount := pendingCount st + 1\<rparr>"] Cons.prems(2)
      by simp
  next
    case Done
    from Cons.prems(3) n Done obtain r1 s1 where
      ir: "onPendingComplete k st = Some (r1, s1)"
      and k': "st' = s1 \<or> runFactory n s1 m a dirname body = Some (r, st')"
      by (auto split: option.splits sum.splits prod.splits)
    have ms: "modules s1 ! m = modules st ! m \<and> m < length (modules s1)"
      using later_module[OF loader_later(9)[OF ir] Cons.prems(2)] .
    show ?thesis using that[of s1] ms k' by simp
  next
    case (Raise code msg)
    then have "st' = st" using Cons.prems(3) n by simp
    then show ?thesis using that[of st] Cons.prems(2) by simp
  qed
  from k show ?case
  proof
    assume "st' = st1" then show ?thesis using h by simp
  next
    assume "runFactory n st1 m a dirname body = Some (r, st')"
    from Cons.IH[OF _ _ this] Cons.prems(1) h show ?thesis by simp
  qed
qed


lemma requireModule_hit:
  assumes "target \<noteq> []" "resolve (Suc n) st target frm = Some (Inr (Some (p, d)))"
    "instanceCache st p = Some m"
  shows "requireModule (Suc n) st target frm = Some (Inr m, st)"
  using assms by (simp del: resolve.simps)

lemma requireModule_miss:
  assumes "target \<noteq> []"
    "resolve (Suc (Suc n)) st target frm = Some (Inr (Some (p, Factory body)))"
    "instanceCache st p = None" "loadedGlobalsByRealPath st p = None"
  shows "\<exists>st2. instanceCache st2 p = Some (length (modules st))
     \<and> length (modules st) < length (modules st2)
     \<and> modules st2 ! length (modules st) =
          \<lparr>filename = p, loaded = False, exports = Obj (length (objects st))\<rparr>
     \<and> objects st2 ! length (objects st) = Map.empty
     \<and> requireModule (Suc (Suc n)) st target frm =
         (case runFactory n st2 (length (modules st)) (length (objects st)) (dirnameOf p) body of
            None \<Rightarrow> None
          | Some (Inl e, st3) \<Rightarrow> Some (Inl e, st3)
          | Some (Inr u, st3) \<Rightarrow>
              Some (Inr (length (modules st)), setLoaded st3 (length (modules st))))"
proof -
  let ?m = "length (modules st)"
  let ?a = "length (objects st)"
  let ?st1 = "st\<lparr>modules := modules st @ [newModule p],
                 instanceCache := (instanceCache st)(p \<mapsto> ?m)\<rparr>"
  let ?st1' = "(case cacheByDirname ?st1 (dirnameOf p) of
                 Some c \<Rightarrow> ?st1
               | None \<Rightarrow> ?st1\<lparr>cacheByDirname := (cacheByDirname ?st1)(dirnameOf p \<mapsto> Map.empty)\<rparr>)"
  let ?st2 = "setExports (?st1'\<lparr>objects := objects ?st1' @ [Map.empty]\<rparr>) ?m (Obj (length (objects ?st1')))"
  have o: "objects ?st1' = objects st" "modules ?st1' = modules st @ [newModule p]"
    "instanceCache ?st1' = (instanceCache st)(p \<mapsto> ?m)"
    by (simp_all split: option.splits)
  have 1: "instanceCache ?st2 p = Some ?m" using o by (simp add: setExports_def)
  have 2: "modules ?st2 ! ?m = \<lparr>filename = p, loaded = False, exports = Obj ?a\<rparr>"
    using o by (simp add: setExports_def newModule_def)
  have 3: "objects ?st2 ! ?a = Map.empty" using o by (simp add: setExports_def)
  have 5: "?m < length (modules ?st2)" using o by (simp add: setExports_def)
  have f: "filename (modules ?st1 ! ?m) = p" by (simp add: newModule_def)
  have 4: "requireModule (Suc (Suc n)) st target frm =
         (case runFactory n ?st2 ?m ?a (dirnameOf p) body of
            None \<Rightarrow> None
          | Some (Inl e, st3) \<Rightarrow> Some (Inl e, st3)
          | Some (Inr u, st3) \<Rightarrow> Some (Inr ?m, setLoaded st3 ?m))"
    using assms f o(1)
    by (simp add: Let_def del: resolve.simps split: option.splits sum.splits prod.splits)
  show ?thesis using 1 2 3 4 5 by blast
qed


lemma requireModule_final_exports:
  assumes "target \<noteq> []"
    "resolve (Suc (Suc n)) st target frm = Some (Inr (Some (p, Factory body)))"
    "instanceCache st p = None" "loadedGlobalsByRealPath st p = None"
    and no: "\<forall>v. SetModuleExports v \<notin> set body"
    and rq: "requireModule (Suc (Suc n)) st target frm = Some (Inr m, st')"
  shows "m = length (modules st) \<and> modules st' ! m =
           \<lparr>filename = p, loaded = True, exports = Obj (length (objects st))\<rparr>"
proof -
  let ?m = "length (modules st)"
  from requireModule_miss[OF assms(1-4)] obtain st2 where
    l: "?m < length (modules st2)"
    and m2: "modules st2 ! ?m = \<lparr>filename = p, loaded = False, exports = Obj (length (objects st))\<rparr>"
    and e: "requireModule (Suc (Suc n)) st target frm =
         (case runFactory n st2 ?m (length (objects st)) (dirnameOf p) body of
            None \<Rightarrow> None
          | Some (Inl e, st3) \<Rightarrow> Some (Inl e, st3)
          | Some (Inr u, st3) \<Rightarrow> Some (Inr ?m, setLoaded st3 ?m))"
    by blast
  from rq e obtain u st3 where
    rf: "runFactory n st2 ?m (length (objects st)) (dirnameOf p) body = Some (Inr u, st3)"
    and r: "m = ?m" "st' = setLoaded st3 ?m"
    by (auto split: option.splits sum.splits prod.splits)
  from runFactory_keeps_module[OF no l rf] have
    "modules st3 ! ?m = modules st2 ! ?m" "?m < length (modules st3)" by simp_all
  then show ?thesis using r m2 by (simp add: setLoaded_def)
qed

lemma instanceRequire_observes:
  assumes "target \<noteq> []" "resolve (Suc n) st target (Some dirname) = Some (Inr (Some (p, d)))"
    "instanceCache st p = Some m" "localCache st dirname target = None" "\<not> inherited target"
  shows "instanceRequire (Suc (Suc n)) st dirname target =
     Some (Inr (exports (modules st ! m)),
           st\<lparr>cacheByDirname :=
                (cacheByDirname st)(dirname \<mapsto> (localCache st dirname)(target \<mapsto> m))\<rparr>)"
  using assms by (simp del: resolve.simps)

lemma reassign_eval:
  "(case require 9 reassignPage ''/p/A'' (Some ''/'') of
      None \<Rightarrow> None
    | Some r \<Rightarrow> Some (fst r, map exports (modules (snd r)), (objects (snd r) ! 1) ''a'',
                       instanceCache (snd r) ''/p/A'', instanceCache (snd r) ''/p/B'')) =
   Some (Inr (Str ''final''), [Str ''final'', Obj 1], Some (Obj 0), Some 0, Some 1)"
  by code_simp

lemma cycle_eval:
  "(case require 9 cyclePage ''/p/A'' (Some ''/'') of
      None \<Rightarrow> None
    | Some r \<Rightarrow> Some (fst r, modules (snd r), (objects (snd r) ! 1) ''a'',
                       map (objects (snd r) ! 0) [''x'', ''y'', ''b''],
                       instanceCache (snd r) ''/p/A'', instanceCache (snd r) ''/p/B'')) =
   Some (Inr (Obj 0),
         [\<lparr>filename = ''/p/A'', loaded = True, exports = Obj 0\<rparr>,
          \<lparr>filename = ''/p/B'', loaded = True, exports = Obj 1\<rparr>],
         Some (Obj 0), [Some (Num 1), Some (Num 2), Some (Obj 1)], Some 0, Some 1)"
  by code_simp

lemma cycle_resolve:
  "resolve 9 cyclePage ''/p/A'' (Some ''/'') =
     Some (Inr (Some (''/p/A'', Factory [SetExport ''x'' (Num 1), RequireInto ''b'' ''./B'',
                           SetExport ''y'' (Num 2)])))"
  by code_simp

lemma cycle_requireModule:
  "(case requireModule 9 cyclePage ''/p/A'' (Some ''/'') of
      None \<Rightarrow> None
    | Some r \<Rightarrow> Some (fst r, (objects (snd r) ! 1) ''a'')) = Some (Inr 0, Some (Obj 0))"
  by code_simp

lemma loading_resolve:
  "resolve (Suc (Suc 0)) loadingPage ''./A'' (Some ''/p'') =
     Some (Inr (Some (''/p/A'', Factory [SetExport ''x'' (Num 1), RequireInto ''b'' ''./B'',
                           SetExport ''y'' (Num 2)])))"
  by code_simp

lemma cycle_fresh:
  "instanceCache cyclePage ''/p/A'' = None \<and> loadedGlobalsByRealPath cyclePage ''/p/A'' = None
   \<and> length (modules cyclePage) = 0 \<and> length (objects cyclePage) = 0"
  by code_simp

text \<open>
  C1, as the claim states it: what the second module observes in a circular require
  would be the object that the require of the first returns in the end. On
  \<open>reassignPage\<close> the module \<open>/p/B\<close> stores what its require of \<open>./A\<close> returned: the
  object at address 0, created for \<open>/p/A\<close> before its factory ran. The require of
  \<open>/p/A\<close> returns the string that the factory assigned to \<open>module.exports\<close> afterwards.
\<close>

theorem circular_observer_not_final_counterexample:
  "\<exists>v st'. require 9 reassignPage ''/p/A'' (Some ''/'') = Some (Inr v, st')
     \<and> instanceCache st' ''/p/B'' = Some 1
     \<and> (objects st' ! 1) ''a'' = Some (Obj 0)
     \<and> v = Str ''final'' \<and> v \<noteq> Obj 0"
proof -
  obtain r where r: "require 9 reassignPage ''/p/A'' (Some ''/'') = Some r"
    using reassign_eval by (cases "require 9 reassignPage ''/p/A'' (Some ''/'')") auto
  then have "fst r = Inr (Str ''final'')" "instanceCache (snd r) ''/p/B'' = Some 1"
    "(objects (snd r) ! 1) ''a'' = Some (Obj 0)"
    using reassign_eval by simp_all
  then show ?thesis using r by (cases r) auto
qed

text \<open>
  C1, amended. A require whose resolution finds the path in the instance cache returns
  that instance and changes nothing. On a miss the new instance is in the cache, with a
  fresh empty object as its exports, in the very state in which the factory starts. A
  second require of the same target returns the same instance, and with it the same
  exports. The \<open>require\<close> injected into a factory answers from the cache of its
  directory when the target has been required from that directory before; for a target
  that has not and names a member of \<open>Object.prototype\<close>, it returns \<open>undefined\<close>
  and resolves nothing; for any other target whose path is in the instance cache,
  loaded or still loading, it returns the exports which that instance has at that
  moment, whatever they are, and creates nothing. When the factory of a module never
  assigns \<open>module.exports\<close>, its require returns in the end the object created before
  the factory ran, which is what a module in a cycle with it has observed; a factory
  that assigns \<open>module.exports\<close> after requiring the other module returns something
  else.
\<close>

theorem instance_cached_before_factory:
  "target \<noteq> [] \<Longrightarrow>
     (resolve (Suc n) st target frm = Some (Inr (Some (p, d))) \<and> instanceCache st p = Some m \<longrightarrow>
        requireModule (Suc n) st target frm = Some (Inr m, st))
   \<and> (resolve (Suc (Suc n)) st target frm = Some (Inr (Some (p, Factory body)))
        \<and> instanceCache st p = None \<and> loadedGlobalsByRealPath st p = None \<longrightarrow>
        (\<exists>st2. instanceCache st2 p = Some (length (modules st))
           \<and> length (modules st) < length (modules st2)
           \<and> modules st2 ! length (modules st) =
                \<lparr>filename = p, loaded = False, exports = Obj (length (objects st))\<rparr>
           \<and> objects st2 ! length (objects st) = Map.empty
           \<and> requireModule (Suc (Suc n)) st target frm =
               (case runFactory n st2 (length (modules st)) (length (objects st)) (dirnameOf p)
                       body of
                  None \<Rightarrow> None
                | Some (Inl e, st3) \<Rightarrow> Some (Inl e, st3)
                | Some (Inr u, st3) \<Rightarrow>
                    Some (Inr (length (modules st)), setLoaded st3 (length (modules st))))))
   \<and> (requireModule k st target frm = Some (Inr m, st') \<longrightarrow>
        requireModule k st' target frm = Some (Inr m, st')
        \<and> require k st target frm = Some (Inr (exports (modules st' ! m)), st')
        \<and> require k st' target frm = Some (Inr (exports (modules st' ! m)), st'))
   \<and> (localCache st dirname target = Some m \<longrightarrow>
        instanceRequire (Suc k) st dirname target = Some (Inr (exports (modules st ! m)), st))
   \<and> (localCache st dirname target = None \<and> inherited target \<longrightarrow>
        instanceRequire (Suc k) st dirname target = Some (Inr Undefined, st))
   \<and> (resolve (Suc n) st target (Some dirname) = Some (Inr (Some (p, d)))
        \<and> instanceCache st p = Some m \<and> localCache st dirname target = None
        \<and> \<not> inherited target \<longrightarrow>
        instanceRequire (Suc (Suc n)) st dirname target =
          Some (Inr (exports (modules st ! m)),
                st\<lparr>cacheByDirname :=
                     (cacheByDirname st)(dirname \<mapsto> (localCache st dirname)(target \<mapsto> m))\<rparr>))
   \<and> (resolve (Suc (Suc n)) st target frm = Some (Inr (Some (p, Factory body)))
        \<and> instanceCache st p = None \<and> loadedGlobalsByRealPath st p = None
        \<and> (\<forall>v. SetModuleExports v \<notin> set body)
        \<and> requireModule (Suc (Suc n)) st target frm = Some (Inr m, st') \<longrightarrow>
        m = length (modules st)
        \<and> modules st' ! m = \<lparr>filename = p, loaded = True, exports = Obj (length (objects st))\<rparr>)"
proof (intro conjI impI)
  assume t: "target \<noteq> []"
  show "requireModule (Suc n) st target frm = Some (Inr m, st)"
    if "resolve (Suc n) st target frm = Some (Inr (Some (p, d))) \<and> instanceCache st p = Some m"
    using that t by (intro requireModule_hit[where p = p and d = d]) auto
  show "\<exists>st2. instanceCache st2 p = Some (length (modules st))
           \<and> length (modules st) < length (modules st2)
           \<and> modules st2 ! length (modules st) =
                \<lparr>filename = p, loaded = False, exports = Obj (length (objects st))\<rparr>
           \<and> objects st2 ! length (objects st) = Map.empty
           \<and> requireModule (Suc (Suc n)) st target frm =
               (case runFactory n st2 (length (modules st)) (length (objects st)) (dirnameOf p)
                       body of
                  None \<Rightarrow> None
                | Some (Inl e, st3) \<Rightarrow> Some (Inl e, st3)
                | Some (Inr u, st3) \<Rightarrow>
                    Some (Inr (length (modules st)), setLoaded st3 (length (modules st))))"
    if "resolve (Suc (Suc n)) st target frm = Some (Inr (Some (p, Factory body)))
        \<and> instanceCache st p = None \<and> loadedGlobalsByRealPath st p = None"
    using that t by (intro requireModule_miss) auto
  show "instanceRequire (Suc k) st dirname target = Some (Inr (exports (modules st ! m)), st)"
    if "localCache st dirname target = Some m"
    using that by simp
  show "instanceRequire (Suc k) st dirname target = Some (Inr Undefined, st)"
    if "localCache st dirname target = None \<and> inherited target"
    using that by simp
  show "instanceRequire (Suc (Suc n)) st dirname target =
          Some (Inr (exports (modules st ! m)),
                st\<lparr>cacheByDirname :=
                     (cacheByDirname st)(dirname \<mapsto> (localCache st dirname)(target \<mapsto> m))\<rparr>)"
    if "resolve (Suc n) st target (Some dirname) = Some (Inr (Some (p, d)))
        \<and> instanceCache st p = Some m \<and> localCache st dirname target = None
        \<and> \<not> inherited target"
    using that t by (intro instanceRequire_observes[where p = p and d = d]) auto
  {
    assume h: "resolve (Suc (Suc n)) st target frm = Some (Inr (Some (p, Factory body)))
        \<and> instanceCache st p = None \<and> loadedGlobalsByRealPath st p = None
        \<and> (\<forall>v. SetModuleExports v \<notin> set body)
        \<and> requireModule (Suc (Suc n)) st target frm = Some (Inr m, st')"
    have f: "m = length (modules st) \<and> modules st' ! m =
        \<lparr>filename = p, loaded = True, exports = Obj (length (objects st))\<rparr>"
      using h t by (intro requireModule_final_exports[where target = target and frm = frm
            and body = body and n = n]) auto
    show "m = length (modules st)" using f by blast
    show "modules st' ! m = \<lparr>filename = p, loaded = True, exports = Obj (length (objects st))\<rparr>"
      using f by blast
  }
  assume r: "requireModule k st target frm = Some (Inr m, st')"
  show r2: "requireModule k st' target frm = Some (Inr m, st')"
    using r by (rule require_twice)
  show "require k st target frm = Some (Inr (exports (modules st' ! m)), st')"
    using r by (simp add: require_def)
  show "require k st' target frm = Some (Inr (exports (modules st' ! m)), st')"
    using r2 by (simp add: require_def)
qed

theorem instance_cached_before_factory_witness:
  "(\<exists>st'. requireModule 9 cyclePage ''/p/A'' (Some ''/'') = Some (Inr 0, st')
     \<and> (objects st' ! 1) ''a'' = Some (Obj 0)
     \<and> modules st' ! 0 = \<lparr>filename = ''/p/A'', loaded = True, exports = Obj 0\<rparr>
     \<and> requireModule 9 st' ''/p/A'' (Some ''/'') = Some (Inr 0, st')
     \<and> require 9 st' ''/p/A'' (Some ''/'') = Some (Inr (Obj 0), st'))
   \<and> instanceRequire 3 loadingPage ''/p'' ''./A'' =
       Some (Inr (Obj 0),
             loadingPage\<lparr>cacheByDirname := [''/p'' \<mapsto> [''./A'' \<mapsto> 0]]\<rparr>)
   \<and> instanceRequire 3 (loadingPage\<lparr>cacheByDirname := [''/p'' \<mapsto> [''./A'' \<mapsto> 0]]\<rparr>) ''/p'' ''./A'' =
       Some (Inr (Obj 0), loadingPage\<lparr>cacheByDirname := [''/p'' \<mapsto> [''./A'' \<mapsto> 0]]\<rparr>)
   \<and> instanceRequire 3 loadingPage ''/p'' ''toString'' = Some (Inr Undefined, loadingPage)"
proof -
  let ?body = "[SetExport ''x'' (Num 1), RequireInto ''b'' ''./B'', SetExport ''y'' (Num 2)]"
  obtain r where r: "requireModule 9 cyclePage ''/p/A'' (Some ''/'') = Some r"
    using cycle_requireModule by (cases "requireModule 9 cyclePage ''/p/A'' (Some ''/'')") auto
  obtain st' where st': "requireModule 9 cyclePage ''/p/A'' (Some ''/'') = Some (Inr 0, st')"
    and b: "(objects st' ! 1) ''a'' = Some (Obj 0)"
    using r cycle_requireModule by (cases r) auto
  have t: "''/p/A'' \<noteq> []" by simp
  have n: "(9::nat) = Suc (Suc 7)" by simp
  note T = instance_cached_before_factory[OF t, where st = cyclePage and frm = "Some ''/''"
      and n = 7 and k = 9 and m = 0 and st' = st' and p = "''/p/A''" and body = ?body]
  have 1: "requireModule 9 st' ''/p/A'' (Some ''/'') = Some (Inr 0, st')"
    "require 9 st' ''/p/A'' (Some ''/'') = Some (Inr (exports (modules st' ! 0)), st')"
    using T st' by blast+
  have 2: "modules st' ! 0 = \<lparr>filename = ''/p/A'', loaded = True, exports = Obj 0\<rparr>"
    using T st' cycle_resolve cycle_fresh unfolding n[symmetric] by auto
  have first: "\<exists>st'. requireModule 9 cyclePage ''/p/A'' (Some ''/'') = Some (Inr 0, st')
     \<and> (objects st' ! 1) ''a'' = Some (Obj 0)
     \<and> modules st' ! 0 = \<lparr>filename = ''/p/A'', loaded = True, exports = Obj 0\<rparr>
     \<and> requireModule 9 st' ''/p/A'' (Some ''/'') = Some (Inr 0, st')
     \<and> require 9 st' ''/p/A'' (Some ''/'') = Some (Inr (Obj 0), st')"
    using st' b 1 2 by auto
  have ta: "''./A'' \<noteq> []" "''toString'' \<noteq> []" by simp_all
  have lc: "localCache loadingPage ''/p'' = Map.empty"
    by (simp add: localCache_def loadingPage_def cyclePage_def def_def init_def)
  have n3: "(3::nat) = Suc (Suc 1)" "(3::nat) = Suc 2" by simp_all
  have ic: "instanceCache loadingPage ''/p/A'' = Some 0" by (simp add: loadingPage_def)
  have ninh: "\<not> inherited ''./A''" by (simp add: inherited_def objectPrototype_def)
  have ex: "exports (modules loadingPage ! 0) = Obj 0" by (simp add: loadingPage_def)
  have cb: "cacheByDirname loadingPage = Map.empty"
    by (simp add: loadingPage_def cyclePage_def def_def init_def)
  have second: "instanceRequire 3 loadingPage ''/p'' ''./A'' =
       Some (Inr (Obj 0),
             loadingPage\<lparr>cacheByDirname := [''/p'' \<mapsto> [''./A'' \<mapsto> 0]]\<rparr>)"
    using instance_cached_before_factory[OF ta(1), where st = loadingPage and n = 1
        and dirname = "''/p''" and p = "''/p/A''" and m = 0
        and d = "Factory [SetExport ''x'' (Num 1), RequireInto ''b'' ''./B'',
                           SetExport ''y'' (Num 2)]"]
      loading_resolve lc ic ninh
    unfolding n3(1)[symmetric]
    by (simp add: cb ex del: resolve.simps instanceRequire.simps)
  have third: "instanceRequire 3 (loadingPage\<lparr>cacheByDirname := [''/p'' \<mapsto> [''./A'' \<mapsto> 0]]\<rparr>)
        ''/p'' ''./A'' =
       Some (Inr (Obj 0), loadingPage\<lparr>cacheByDirname := [''/p'' \<mapsto> [''./A'' \<mapsto> 0]]\<rparr>)"
    using instance_cached_before_factory[OF ta(1),
        where st = "loadingPage\<lparr>cacheByDirname := [''/p'' \<mapsto> [''./A'' \<mapsto> 0]]\<rparr>" and k = 2
        and dirname = "''/p''" and m = 0]
    unfolding n3(2)[symmetric]
    by (simp add: ex localCache_def del: instanceRequire.simps)
  have fourth: "instanceRequire 3 loadingPage ''/p'' ''toString'' = Some (Inr Undefined, loadingPage)"
    using instance_cached_before_factory[OF ta(2), where st = loadingPage and k = 2
        and dirname = "''/p''"] lc
    unfolding n3(2)[symmetric]
    by (simp add: inherited_def objectPrototype_def del: instanceRequire.simps)
  show ?thesis using first second third fourth by blast
qed

section \<open>The run queue\<close>

lemma run_enqueue:
  "options \<noteq> Some False \<Longrightarrow> \<not> ready_flag st \<Longrightarrow>
   run (Suc n) st path options = Some (Inr (), st\<lparr>runQueue := runQueue st @ [(path, options)]\<rparr>)"
  by simp

lemma runAll_not_ready:
  "\<not> ready_flag st \<Longrightarrow> list_all (\<lambda>e. snd e \<noteq> Some False) queue \<Longrightarrow>
   runAll (Suc (Suc n)) st queue = Some (Inr (), st\<lparr>runQueue := runQueue st @ queue\<rparr>)"
proof (induction queue arbitrary: st)
  case Nil
  then show ?case by simp
next
  case (Cons e queue)
  have "runAll (Suc (Suc n)) (st\<lparr>runQueue := runQueue st @ [(fst e, snd e)]\<rparr>) queue =
      Some (Inr (), st\<lparr>runQueue := runQueue st @ [(fst e, snd e)]\<rparr>
                 \<lparr>runQueue := runQueue (st\<lparr>runQueue := runQueue st @ [(fst e, snd e)]\<rparr>) @ queue\<rparr>)"
    using Cons.prems by (intro Cons.IH) auto
  then show ?case using Cons.prems by simp
qed

lemma runAll_append:
  "runAll (Suc n) st (xs @ ys) =
     (case runAll (Suc n) st xs of
        None \<Rightarrow> None
      | Some (Inl e, st') \<Rightarrow> Some (Inl e, st')
      | Some (Inr u, st') \<Rightarrow> runAll (Suc n) st' ys)"
proof (induction xs arbitrary: st)
  case Nil
  then show ?case by simp
next
  case (Cons x xs)
  show ?case
    by (cases "run n st (fst x) (snd x)")
       (auto simp: Cons.IH split: sum.splits prod.splits)
qed

lemma ready_stops:
  assumes q: "runQueue st = drained @ rest" "drained \<noteq> []"
    and d: "runAll (Suc (Suc n)) (st\<lparr>ready_flag := True, runQueue := []\<rparr>) drained = Some (Inr (), s)"
    and nr: "\<not> ready_flag s"
    and w: "list_all (\<lambda>e. snd e \<noteq> Some False) rest"
  shows "ready (Suc (Suc (Suc (Suc n)))) st = Some (Inr (), s\<lparr>runQueue := runQueue s @ rest\<rparr>)"
proof -
  have "runAll (Suc (Suc n)) (st\<lparr>ready_flag := True, runQueue := []\<rparr>) (drained @ rest) =
      Some (Inr (), s\<lparr>runQueue := runQueue s @ rest\<rparr>)"
    unfolding runAll_append d using runAll_not_ready[OF nr w] by simp
  then show ?thesis using q nr by simp
qed

lemma ready_fifo:
  assumes q: "runQueue st \<noteq> []"
    and d: "runAll (Suc n) (st\<lparr>ready_flag := True, runQueue := []\<rparr>) (runQueue st) = Some (Inr (), s)"
    and e: "runQueue s = []"
  shows "ready (Suc (Suc (Suc n))) st = Some (Inr (), s)"
  using assms by simp

lemma ready_throws:
  assumes q: "runQueue st = drained @ e # rest"
    and d: "runAll (Suc (Suc n)) (st\<lparr>ready_flag := True, runQueue := []\<rparr>) drained = Some (Inr (), s)"
    and t: "run (Suc n) s (fst e) (snd e) = Some (Inl err, s')"
  shows "ready (Suc (Suc (Suc (Suc n)))) st = Some (Inl err, s')"
proof -
  have "runAll (Suc (Suc n)) s (e # rest) = Some (Inl err, s')"
    using t by simp
  then have "runAll (Suc (Suc n)) (st\<lparr>ready_flag := True, runQueue := []\<rparr>) (drained @ e # rest) =
      Some (Inl err, s')"
    unfolding runAll_append d by simp
  then show ?thesis using q by simp
qed

lemma throw_eval:
  "(case ready 9 throwPage of
      None \<Rightarrow> None
    | Some r \<Rightarrow> Some (fst r, runQueue (snd r), ready_flag (snd r),
                       map (instanceCache (snd r)) [''/t1'', ''/t2''])) =
   Some (Inl (Error None ''boom''), [], False, [Some 0, None])"
  by code_simp

lemma throw_run_eval:
  "(case run 7 (throwPage\<lparr>ready_flag := True, runQueue := []\<rparr>) ''/t1'' None of
      None \<Rightarrow> None
    | Some r \<Rightarrow> Some (fst r, runQueue (snd r), ready_flag (snd r),
                       map (instanceCache (snd r)) [''/t1'', ''/t2''])) =
   Some (Inl (Error None ''boom''), [], False, [Some 0, None])"
  by code_simp

lemma drained_eval:
  "(case runAll 7 (queuedPage\<lparr>ready_flag := True, runQueue := []\<rparr>) [(''/m1'', None), (''/m2'', None)] of
      None \<Rightarrow> None
    | Some r \<Rightarrow> Some (fst r, runQueue (snd r), ready_flag (snd r),
                       map (instanceCache (snd r)) [''/m1'', ''/m2'', ''/m3''])) =
   Some (Inr (), [], False, [Some 0, Some 1, None])"
  by code_simp

text \<open>
  C5, as the claim states it: whenever readiness has flipped back during the drain, the
  entries not yet executed would be preserved in the queue. On \<open>throwPage\<close> the first
  of two queued entries registers a pending job and then throws: \<open>ready\<close> ends with
  that error, the page not ready, and the second entry has neither been executed nor is
  it in the queue, which is empty.
\<close>

theorem thrown_entry_drops_queue_counterexample:
  "runQueue throwPage = [(''/t1'', None), (''/t2'', None)]
   \<and> (\<exists>s. ready 9 throwPage = Some (Inl (Error None ''boom''), s)
          \<and> \<not> ready_flag s \<and> runQueue s = []
          \<and> instanceCache s ''/t1'' = Some 0 \<and> instanceCache s ''/t2'' = None)"
proof -
  obtain r where r: "ready 9 throwPage = Some r"
    using throw_eval by (cases "ready 9 throwPage") auto
  then have "fst r = Inl (Error None ''boom'')" "\<not> ready_flag (snd r)" "runQueue (snd r) = []"
    "instanceCache (snd r) ''/t1'' = Some 0" "instanceCache (snd r) ''/t2'' = None"
    using throw_eval by simp_all
  then have "\<exists>s. ready 9 throwPage = Some (Inl (Error None ''boom''), s)
          \<and> \<not> ready_flag s \<and> runQueue s = []
          \<and> instanceCache s ''/t1'' = Some 0 \<and> instanceCache s ''/t2'' = None"
    using r by (cases r) auto
  then show ?thesis by (simp add: throwPage_def)
qed

text \<open>
  C5, amended. \<open>run\<close> with waiting requested (no options, or \<open>wait\<close> other than
  \<open>false\<close>) on a page that is not ready appends the entry to the queue and executes
  nothing. \<open>ready\<close> sets the flag and runs the queued entries from the first on, each in
  the state the one before left. When the entries run so far (\<open>drained\<close>) have returned
  normally and the flag is down after them (an entry has registered a pending job), what
  remains is not executed in this drain: the drain ends with the remaining entries in
  the queue, in their order, behind whatever was queued meanwhile. The entries of a
  queue are entries that wait, since \<open>run\<close> queues no other. When an entry throws,
  \<open>ready\<close> ends with that error in the state in which the entry left the page: the
  entries behind it are not put back into the queue.
\<close>

theorem ready_drains_until_not_ready:
  "(options \<noteq> Some False \<and> \<not> ready_flag st \<longrightarrow>
      run (Suc n) st path options =
        Some (Inr (), st\<lparr>runQueue := runQueue st @ [(path, options)]\<rparr>))
   \<and> (runQueue st = [] \<longrightarrow> ready (Suc (Suc n)) st = Some (Inr (), st\<lparr>ready_flag := True\<rparr>))
   \<and> runAll (Suc n) st (e # es) =
       (case run n st (fst e) (snd e) of
          None \<Rightarrow> None
        | Some (Inl err, st') \<Rightarrow> Some (Inl err, st')
        | Some (Inr u, st') \<Rightarrow> runAll (Suc n) st' es)
   \<and> runAll (Suc n) st (xs @ ys) =
       (case runAll (Suc n) st xs of
          None \<Rightarrow> None
        | Some (Inl err, st') \<Rightarrow> Some (Inl err, st')
        | Some (Inr u, st') \<Rightarrow> runAll (Suc n) st' ys)
   \<and> (runQueue st \<noteq> []
        \<and> runAll (Suc n) (st\<lparr>ready_flag := True, runQueue := []\<rparr>) (runQueue st) = Some (Inr (), s)
        \<and> runQueue s = [] \<longrightarrow>
      ready (Suc (Suc (Suc n))) st = Some (Inr (), s))
   \<and> (runQueue st = drained @ rest \<and> drained \<noteq> []
        \<and> runAll (Suc (Suc n)) (st\<lparr>ready_flag := True, runQueue := []\<rparr>) drained = Some (Inr (), s)
        \<and> \<not> ready_flag s \<and> list_all (\<lambda>e. snd e \<noteq> Some False) rest \<longrightarrow>
      ready (Suc (Suc (Suc (Suc n)))) st = Some (Inr (), s\<lparr>runQueue := runQueue s @ rest\<rparr>))
   \<and> (runQueue st = drained @ e # rest
        \<and> runAll (Suc (Suc n)) (st\<lparr>ready_flag := True, runQueue := []\<rparr>) drained = Some (Inr (), s)
        \<and> run (Suc n) s (fst e) (snd e) = Some (Inl err, s') \<longrightarrow>
      ready (Suc (Suc (Suc (Suc n)))) st = Some (Inl err, s'))"
proof (intro conjI impI)
  show "ready (Suc (Suc (Suc (Suc n)))) st = Some (Inl err, s')"
    if "runQueue st = drained @ e # rest
        \<and> runAll (Suc (Suc n)) (st\<lparr>ready_flag := True, runQueue := []\<rparr>) drained = Some (Inr (), s)
        \<and> run (Suc n) s (fst e) (snd e) = Some (Inl err, s')"
    using that by (elim conjE) (erule (2) ready_throws)
  show "run (Suc n) st path options =
        Some (Inr (), st\<lparr>runQueue := runQueue st @ [(path, options)]\<rparr>)"
    if "options \<noteq> Some False \<and> \<not> ready_flag st"
    using that by (intro run_enqueue) auto
  show "ready (Suc (Suc n)) st = Some (Inr (), st\<lparr>ready_flag := True\<rparr>)" if "runQueue st = []"
    using that by simp
  show "runAll (Suc n) st (e # es) =
       (case run n st (fst e) (snd e) of
          None \<Rightarrow> None
        | Some (Inl err, st') \<Rightarrow> Some (Inl err, st')
        | Some (Inr u, st') \<Rightarrow> runAll (Suc n) st' es)"
    by simp
  show "runAll (Suc n) st (xs @ ys) =
       (case runAll (Suc n) st xs of
          None \<Rightarrow> None
        | Some (Inl err, st') \<Rightarrow> Some (Inl err, st')
        | Some (Inr u, st') \<Rightarrow> runAll (Suc n) st' ys)"
    by (rule runAll_append)
  show "ready (Suc (Suc (Suc n))) st = Some (Inr (), s)"
    if "runQueue st \<noteq> []
        \<and> runAll (Suc n) (st\<lparr>ready_flag := True, runQueue := []\<rparr>) (runQueue st) = Some (Inr (), s)
        \<and> runQueue s = []"
    using that by (intro ready_fifo) auto
  show "ready (Suc (Suc (Suc (Suc n)))) st = Some (Inr (), s\<lparr>runQueue := runQueue s @ rest\<rparr>)"
    if "runQueue st = drained @ rest \<and> drained \<noteq> []
        \<and> runAll (Suc (Suc n)) (st\<lparr>ready_flag := True, runQueue := []\<rparr>) drained = Some (Inr (), s)
        \<and> \<not> ready_flag s \<and> list_all (\<lambda>e. snd e \<noteq> Some False) rest"
    using that by (intro ready_stops[where drained = drained]) auto
qed

theorem ready_drains_until_not_ready_witness:
  "run 1 queuePage ''/m1'' None = Some (Inr (), queuePage\<lparr>runQueue := [(''/m1'', None)]\<rparr>)
   \<and> (\<exists>s. runAll 7 (queuedPage\<lparr>ready_flag := True, runQueue := []\<rparr>)
               [(''/m1'', None), (''/m2'', None)] = Some (Inr (), s)
          \<and> \<not> ready_flag s
          \<and> map (instanceCache s) [''/m1'', ''/m2'', ''/m3''] = [Some 0, Some 1, None]
          \<and> ready 9 queuedPage = Some (Inr (), s\<lparr>runQueue := [(''/m3'', None)]\<rparr>))
   \<and> ready 2 init = Some (Inr (), init\<lparr>ready_flag := True\<rparr>)
   \<and> (\<exists>s'. run 7 (throwPage\<lparr>ready_flag := True, runQueue := []\<rparr>) ''/t1'' None =
              Some (Inl (Error None ''boom''), s')
          \<and> ready 10 throwPage = Some (Inl (Error None ''boom''), s')
          \<and> runQueue s' = [] \<and> instanceCache s' ''/t2'' = None)"
proof -
  have i: "ready 2 init = Some (Inr (), init\<lparr>ready_flag := True\<rparr>)"
    using ready_drains_until_not_ready[where st = init and n = 0]
    by (simp add: init_def numeral_2_eq_2 del: ready.simps)
  obtain rt where rt: "run 7 (throwPage\<lparr>ready_flag := True, runQueue := []\<rparr>) ''/t1'' None = Some rt"
    using throw_run_eval
    by (cases "run 7 (throwPage\<lparr>ready_flag := True, runQueue := []\<rparr>) ''/t1'' None") auto
  obtain s' where s': "run 7 (throwPage\<lparr>ready_flag := True, runQueue := []\<rparr>) ''/t1'' None =
      Some (Inl (Error None ''boom''), s')"
    and ps': "runQueue s' = []" "instanceCache s' ''/t2'' = None"
    using rt throw_run_eval by (cases rt) auto
  have nt: "(7::nat) = Suc 6" "(8::nat) = Suc (Suc 6)" "(10::nat) = Suc (Suc (Suc (Suc 6)))"
    by simp_all
  have e8: "runAll 8 (throwPage\<lparr>ready_flag := True, runQueue := []\<rparr>) [] =
      Some (Inr (), throwPage\<lparr>ready_flag := True, runQueue := []\<rparr>)"
    by simp
  have t: "ready 10 throwPage = Some (Inl (Error None ''boom''), s')"
    using ready_drains_until_not_ready[where st = throwPage and n = 6 and drained = "[]"
        and e = "(''/t1'', None)" and rest = "[(''/t2'', None)]"
        and s = "throwPage\<lparr>ready_flag := True, runQueue := []\<rparr>" and err = "Error None ''boom''"
        and s' = s'] s' e8
    unfolding nt[symmetric]
    by (simp add: throwPage_def del: ready.simps run.simps runAll.simps)
  have thrown: "\<exists>s'. run 7 (throwPage\<lparr>ready_flag := True, runQueue := []\<rparr>) ''/t1'' None =
              Some (Inl (Error None ''boom''), s')
          \<and> ready 10 throwPage = Some (Inl (Error None ''boom''), s')
          \<and> runQueue s' = [] \<and> instanceCache s' ''/t2'' = None"
    using s' t ps' by blast
  have a: "run 1 queuePage ''/m1'' None = Some (Inr (), queuePage\<lparr>runQueue := [(''/m1'', None)]\<rparr>)"
    using ready_drains_until_not_ready[where options = None and st = queuePage and n = 0
        and path = "''/m1''"]
    by (simp add: queuePage_def def_def init_def)
  let ?d = "[(''/m1'', None), (''/m2'', None)] :: (string \<times> bool option) list"
  obtain r where r: "runAll 7 (queuedPage\<lparr>ready_flag := True, runQueue := []\<rparr>) ?d = Some r"
    using drained_eval
    by (cases "runAll 7 (queuedPage\<lparr>ready_flag := True, runQueue := []\<rparr>) ?d") auto
  obtain s where s: "runAll 7 (queuedPage\<lparr>ready_flag := True, runQueue := []\<rparr>) ?d = Some (Inr (), s)"
    and p: "\<not> ready_flag s" "runQueue s = []"
      "map (instanceCache s) [''/m1'', ''/m2'', ''/m3''] = [Some 0, Some 1, None]"
    using r drained_eval by (cases r) auto
  have q: "runQueue queuedPage = ?d @ [(''/m3'', None)]" by (simp add: queuedPage_def)
  have n: "(7::nat) = Suc (Suc 5)" "(9::nat) = Suc (Suc (Suc (Suc 5)))" by simp_all
  have b: "ready 9 queuedPage = Some (Inr (), s\<lparr>runQueue := [(''/m3'', None)]\<rparr>)"
    using ready_drains_until_not_ready[where st = queuedPage and n = 5 and drained = ?d
        and rest = "[(''/m3'', None)]" and s = s] q s p
    unfolding n[symmetric] by simp
  have queued: "\<exists>s. runAll 7 (queuedPage\<lparr>ready_flag := True, runQueue := []\<rparr>)
               [(''/m1'', None), (''/m2'', None)] = Some (Inr (), s)
          \<and> \<not> ready_flag s
          \<and> map (instanceCache s) [''/m1'', ''/m2'', ''/m3''] = [Some 0, Some 1, None]
          \<and> ready 9 queuedPage = Some (Inr (), s\<lparr>runQueue := [(''/m3'', None)]\<rparr>)"
    by (rule exI[of _ s], intro conjI s p(1) p(3) b)
  show ?thesis
    by (intro conjI a queued i thrown)
qed

section \<open>Properties of key sequences\<close>

declare decimal.simps [simp del]

lemma nextKey_counted:
  assumes "length seen < 2 ^ 53"
  shows "nextKey (counted seen) key =
     (if key = ''__proto__'' then key else occurrence key (count_list seen key),
      counted (seen @ [key]))"
proof -
  have "count_list seen key \<le> length seen" by (rule count_le_length)
  then have "count_list seen key < 2 ^ 53" using assms by simp
  then show ?thesis
    by (auto simp: nextKey_def counted_def occurrence_def increment_def fun_eq_iff)
qed

lemma nextKeys_counted:
  "length seen + length keys \<le> 2 ^ 53 \<Longrightarrow>
   nextKeys (counted seen) keys =
     map (\<lambda>i. if keys ! i = ''__proto__'' then keys ! i
              else occurrence (keys ! i) (count_list (seen @ take i keys) (keys ! i)))
       [0..<length keys]"
proof (induction keys arbitrary: seen)
  case Nil
  then show ?case by simp
next
  case (Cons key keys)
  let ?F = "\<lambda>i. if (key # keys) ! i = ''__proto__'' then (key # keys) ! i
              else occurrence ((key # keys) ! i)
                     (count_list (seen @ take i (key # keys)) ((key # keys) ! i))"
  have l: "length seen < 2 ^ 53" "length (seen @ [key]) + length keys \<le> 2 ^ 53"
    using Cons.prems by simp_all
  have "map ?F [0..<length (key # keys)] = ?F 0 # map (\<lambda>i. ?F (Suc i)) [0..<length keys]"
    by (simp only: length_Cons map_upt_Suc)
  also have "?F 0 = (if key = ''__proto__'' then key else occurrence key (count_list seen key))"
    by simp
  also have "(\<lambda>i. ?F (Suc i)) =
      (\<lambda>i. if keys ! i = ''__proto__'' then keys ! i
           else occurrence (keys ! i) (count_list ((seen @ [key]) @ take i keys) (keys ! i)))"
    by (simp only: nth_Cons_Suc take_Suc_Cons append_assoc append_Cons append_Nil)
  finally show ?case using Cons.IH[OF l(2)]
    by (simp only: nextKeys.simps nextKey_counted[OF l(1)] fst_conv snd_conv)
qed

lemma counted_Nil: "counted [] = KeySequence"
  by (simp add: counted_def KeySequence_def)

lemma decimal_1_2:
  "decimal 1 = ''1''" "decimal 2 = ''2''" "decimal (Suc 0) = ''1''" "decimal (Suc (Suc 0)) = ''2''"
  by code_simp+

lemma digits_table:
  "list_all (\<lambda>n. isDigit (char_of (48 + n)) \<and> of_char (char_of (48 + n) :: char) = 48 + n
                  \<and> (0 < n \<longrightarrow> char_of (48 + n) \<noteq> CHR ''0'')) [0..<10::nat]"
  by code_simp

lemma digit_facts:
  assumes "(n::nat) < 10"
  shows "isDigit (char_of (48 + n))" "of_char (char_of (48 + n) :: char) = 48 + n"
    "0 < n \<Longrightarrow> char_of (48 + n) \<noteq> CHR ''0''"
proof -
  have "n \<in> set [0..<10]" using assms by simp
  then have "isDigit (char_of (48 + n)) \<and> of_char (char_of (48 + n) :: char) = 48 + n
                  \<and> (0 < n \<longrightarrow> char_of (48 + n) \<noteq> CHR ''0'')"
    using digits_table unfolding list_all_iff by blast
  then show "isDigit (char_of (48 + n))" "of_char (char_of (48 + n) :: char) = 48 + n"
    "0 < n \<Longrightarrow> char_of (48 + n) \<noteq> CHR ''0''"
    by simp_all
qed

lemmas digit_isDigit = digit_facts(1)
lemmas digit_of_char = digit_facts(2)
lemmas digit_not_zero = digit_facts(3)

lemma decimal_not_Nil: "decimal n \<noteq> []"
  by (subst decimal.simps) simp

lemma decimal_value: "decimalValue (decimal n) = n"
proof (induction n rule: decimal.induct)
  case (1 n)
  show ?case
  proof (cases "n < 10")
    case True
    then show ?thesis
      by (subst decimal.simps) (simp add: decimalValue_def digit_of_char)
  next
    case False
    have m: "n mod 10 < 10" by simp
    have "decimalValue (decimal (n div 10)) = n div 10" using 1 False by simp
    then show ?thesis using False
      by (subst decimal.simps) (simp add: decimalValue_def digit_of_char[OF m])
  qed
qed

lemma decimal_digits: "list_all isDigit (decimal n)"
proof (induction n rule: decimal.induct)
  case (1 n)
  show ?case
  proof (cases "n < 10")
    case True
    then show ?thesis by (subst decimal.simps) (simp add: digit_isDigit)
  next
    case False
    have m: "n mod 10 < 10" by simp
    show ?thesis using 1 False by (subst decimal.simps) (simp add: digit_isDigit[OF m])
  qed
qed

lemma decimal_no_leading_zero: "0 < n \<Longrightarrow> hd (decimal n) \<noteq> CHR ''0''"
proof (induction n rule: decimal.induct)
  case (1 n)
  show ?case
  proof (cases "n < 10")
    case True
    then show ?thesis using 1(2) by (subst decimal.simps) (simp add: digit_not_zero)
  next
    case False
    then have "0 < n div 10" by simp
    then have "hd (decimal (n div 10)) \<noteq> CHR ''0''" using 1(1) False by simp
    then show ?thesis using False decimal_not_Nil[of "n div 10"]
      by (subst decimal.simps) simp
  qed
qed
lemma proto_eval:
  "nextKeys KeySequence [''__proto__'', ''__proto__'', ''__proto__''] =
     [''__proto__'', ''__proto__'', ''__proto__'']"
  by (simp add: nextKey_def KeySequence_def)

text \<open>
  C9, as the claim states it: every key would come back with \<open>_1\<close> at its second
  occurrence and \<open>_2\<close> at its third. The key \<open>__proto__\<close> comes back unchanged
  every time.
\<close>

theorem proto_key_not_suffixed_counterexample:
  "nextKeys KeySequence [''__proto__'', ''__proto__'', ''__proto__''] =
     [''__proto__'', ''__proto__'', ''__proto__'']
   \<and> [''__proto__'', ''__proto__'', ''__proto__''] \<noteq>
       [''__proto__'', ''__proto__'' @ ''_1'', ''__proto__'' @ ''_2'']"
  using proto_eval by simp

text \<open>
  C9, amended. In a scope (a key sequence that starts empty) that is asked for no more
  than \<open>2^53\<close> keys, every key other than \<open>__proto__\<close> comes back unchanged when it
  has not been asked for before, and otherwise followed by \<open>_\<close> and the number of the
  times it has been asked for before: \<open>_1\<close> the second time, \<open>_2\<close> the third. The
  number is written in decimal digits, without a leading zero. The key \<open>__proto__\<close>
  comes back unchanged every time.
\<close>

theorem key_sequence_suffixes:
  "length keys \<le> 2 ^ 53 \<Longrightarrow>
     nextKeys KeySequence keys =
       map (\<lambda>i. if keys ! i = ''__proto__'' then keys ! i
                else occurrence (keys ! i) (count_list (take i keys) (keys ! i)))
         [0..<length keys]
   \<and> occurrence key 0 = key
   \<and> (0 < m \<longrightarrow> occurrence key m = key @ ''_'' @ decimal m)
   \<and> decimal m \<noteq> [] \<and> list_all isDigit (decimal m) \<and> decimalValue (decimal m) = m
   \<and> (0 < m \<longrightarrow> hd (decimal m) \<noteq> CHR ''0'')
   \<and> occurrence key 1 = key @ ''_1'' \<and> occurrence key 2 = key @ ''_2''
   \<and> (key \<noteq> ''__proto__'' \<longrightarrow>
        nextKeys KeySequence [key, key, key] = [key, key @ ''_1'', key @ ''_2'']
        \<and> nextKeys KeySequence [key, ''b'' @ key, key] = [key, ''b'' @ key, key @ ''_1''])"
proof (intro conjI impI)
  have g: "nextKeys KeySequence ks =
     map (\<lambda>i. if ks ! i = ''__proto__'' then ks ! i
              else occurrence (ks ! i) (count_list (take i ks) (ks ! i)))
       [0..<length ks]" if "length ks \<le> 2 ^ 53" for ks
    using nextKeys_counted[of "[]" ks] that by (simp add: counted_Nil)
  assume "length keys \<le> 2 ^ 53"
  then show "nextKeys KeySequence keys =
       map (\<lambda>i. if keys ! i = ''__proto__'' then keys ! i
                else occurrence (keys ! i) (count_list (take i keys) (keys ! i)))
         [0..<length keys]"
    by (rule g)
  show "occurrence key 0 = key" "occurrence key 1 = key @ ''_1''"
    "occurrence key 2 = key @ ''_2''"
    by (simp_all add: occurrence_def decimal_1_2)
  show "occurrence key m = key @ ''_'' @ decimal m" if "0 < m"
    using that by (simp add: occurrence_def)
  show "decimal m \<noteq> []" by (rule decimal_not_Nil)
  show "list_all isDigit (decimal m)" by (rule decimal_digits)
  show "decimalValue (decimal m) = m" by (rule decimal_value)
  show "hd (decimal m) \<noteq> CHR ''0''" if "0 < m"
    using that by (rule decimal_no_leading_zero)
  have u: "[0..<3] = [0, 1, 2]" by (simp add: upt_rec)
  have l3: "length [x, y, z] \<le> 2 ^ 53" for x y z :: string by simp
  assume k: "key \<noteq> ''__proto__''"
  show "nextKeys KeySequence [key, key, key] = [key, key @ ''_1'', key @ ''_2'']"
    unfolding g[OF l3] using k by (simp add: u occurrence_def decimal_1_2 numeral_2_eq_2)
  have d: "key \<noteq> ''b'' @ key" by (induction key) auto
  show "nextKeys KeySequence [key, ''b'' @ key, key] = [key, ''b'' @ key, key @ ''_1'']"
    unfolding g[OF l3] using d k by (auto simp add: u occurrence_def decimal_1_2 numeral_2_eq_2)
qed

theorem key_sequence_suffixes_witness:
  "nextKeys KeySequence [''a'', ''a'', ''constructor'', ''__proto__'', ''constructor'', ''a'', ''__proto__''] =
     [''a'', ''a_1'', ''constructor'', ''__proto__'', ''constructor_1'', ''a_2'', ''__proto__'']
   \<and> nextKeys KeySequence [''k'', ''k'', ''k''] = [''k'', ''k_1'', ''k_2'']
   \<and> hd (decimal 10) \<noteq> CHR ''0''
   \<and> occurrence ''k'' 12 = ''k_'' @ decimal 12"
proof -
  let ?ks = "[''a'', ''a'', ''constructor'', ''__proto__'', ''constructor'', ''a'', ''__proto__'']"
  have l: "length ?ks \<le> 2 ^ 53" "length ([] :: string list) \<le> 2 ^ 53" by simp_all
  have u: "[0..<7] = [0, 1, 2, 3, 4, 5, 6]" by (simp add: upt_rec)
  have 1: "nextKeys KeySequence ?ks =
     [''a'', ''a_1'', ''constructor'', ''__proto__'', ''constructor_1'', ''a_2'', ''__proto__'']"
    unfolding key_sequence_suffixes[OF l(1), where key = "''a''" and m = 1, THEN conjunct1]
    by (simp add: u occurrence_def decimal_1_2 numeral_2_eq_2)
  have 2: "nextKeys KeySequence [''k'', ''k'', ''k''] = [''k'', ''k_1'', ''k_2'']"
    using key_sequence_suffixes[OF l(2), where key = "''k''"] by simp
  have 3: "hd (decimal 10) \<noteq> CHR ''0''" "occurrence ''k'' 12 = ''k_'' @ decimal 12"
    using key_sequence_suffixes[OF l(2), where m = 10]
      key_sequence_suffixes[OF l(2), where m = 12 and key = "''k''"]
    by simp_all
  show ?thesis using 1 2 3 by simp
qed

end
